theory Spec2Isabelle
  imports Main "HOL-Library.Sublist"
begin

section \<open>Thrown values and HTTP responses\<close>

text \<open>
  A JavaScript \<^verbatim>\<open>throw\<close> carries any value. The handlers of this repository only
  distinguish an \<^verbatim>\<open>Error\<close> (whose \<^verbatim>\<open>message\<close> they read) from everything else, so a
  thrown value is an \<open>Error\<close> with its message or some other value. A call that may throw
  returns \<open>js_exn + 'a\<close>, \<open>Inl\<close> being the throw.
\<close>

datatype js_exn = Error string | Thrown

text \<open>\<^verbatim>\<open>error instanceof Error ? error.message : 'Unknown error'\<close>\<close>

definition errorMessage :: "js_exn \<Rightarrow> string" where
  "errorMessage e = (case e of Error m \<Rightarrow> m | Thrown \<Rightarrow> ''Unknown error'')"

text \<open>
  The result of \<^verbatim>\<open>fetch\<close>: the status line and the outcome of \<^verbatim>\<open>response.json()\<close>
  (which throws on a body that is not JSON). \<^verbatim>\<open>response.ok\<close> is true for the statuses
  200 to 299. The network itself is the environment: \<^verbatim>\<open>fetch\<close> may throw instead of
  returning a response.
\<close>

record 'a response =
  status :: nat
  statusText :: string
  json :: "js_exn + 'a"

definition ok :: "'a response \<Rightarrow> bool" where
  "ok r = (200 \<le> status r \<and> status r \<le> 299)"

type_synonym 'a fetched = "js_exn + 'a response"

text \<open>A number inside a template literal: its decimal digits.\<close>

fun show_nat :: "nat \<Rightarrow> string" where
  "show_nat n =
     (if n < 10 then [''0123456789'' ! n]
      else show_nat (n div 10) @ [''0123456789'' ! (n mod 10)])"

declare show_nat.simps [simp del]

section \<open>Pool Client (ObjectPoolSdk)\<close>

record SandboxItem =
  execUrl :: string
  id_I :: string

record SandboxBorrowOutput =
  item_O :: SandboxItem
  borrow_token_O :: string

record BorrowedSandbox =
  item_B :: SandboxItem
  borrowToken_B :: string
  sessionId_B :: string

text \<open>
  \<^verbatim>\<open>ObjectPoolSdk.borrow\<close>, as a function of what \<^verbatim>\<open>GET /borrow\<close> answered. The query
  string (wait seconds, session hint) only travels to the pool.
\<close>

definition sdk_borrow :: "SandboxBorrowOutput fetched \<Rightarrow> js_exn + SandboxBorrowOutput" where
  "sdk_borrow f =
     (case f of
        Inl e \<Rightarrow> Inl e
      | Inr response \<Rightarrow>
          if \<not> ok response then
            (if status response = 503 then Inl (Error ''No sandboxes available in the pool'')
             else Inl (Error (''Failed to borrow sandbox: '' @ show_nat (status response)
                              @ '' '' @ statusText response)))
          else json response)"

text \<open>\<^verbatim>\<open>ObjectPoolSdk.return\<close>: the operation reference is the \<^verbatim>\<open>operation_id\<close>.\<close>

definition sdk_return :: "string fetched \<Rightarrow> js_exn + string" where
  "sdk_return f =
     (case f of
        Inl e \<Rightarrow> Inl e
      | Inr response \<Rightarrow>
          if \<not> ok response then
            (if status response = 403 then
               Inl (Error ''Invalid borrow token - cannot return sandbox'')
             else Inl (Error (''Failed to return sandbox: '' @ show_nat (status response)
                              @ '' '' @ statusText response)))
          else json response)"

text \<open>
  \<^verbatim>\<open>ObjectPoolSdk.returnAndWait\<close>: \<^verbatim>\<open>return\<close>, then \<^verbatim>\<open>waitForOperation\<close> on the operation
  it names. The polling loop of \<^verbatim>\<open>waitForOperation\<close> enters as its outcome for that
  operation id: a final status, or the throw of a failed status request or of the
  time-out.
\<close>

definition sdk_returnAndWait ::
  "string fetched \<Rightarrow> (string \<Rightarrow> js_exn + string) \<Rightarrow> js_exn + string" where
  "sdk_returnAndWait f waitForOperation =
     (case sdk_return f of
        Inl e \<Rightarrow> Inl e
      | Inr operation_id \<Rightarrow> waitForOperation operation_id)"

section \<open>Session Manager (AgentSession)\<close>

record AgentSessionData =
  sessionId_D :: string
  item_D :: "SandboxItem option"
  borrowToken_D :: "string option"
  borrowedAt_D :: "nat option"

record AgentSessionConfig =
  sessionId_C :: string
  initialData_C :: "AgentSessionData option"

record AgentSession =
  sessionId :: string
  data :: AgentSessionData

text \<open>
  What surrounds a session: the pool behind the SDK, the registered
  \<^verbatim>\<open>onSessionDataChange\<close> callback and the clock. Each is a script indexed by the number
  of the call, so a run is a function of the script and every answer of the outside can
  be chosen freely.
\<close>

record pool_env =
  borrowFetch :: "nat \<Rightarrow> SandboxBorrowOutput fetched"
  returnFetch :: "nat \<Rightarrow> string fetched"
  waitForOperation :: "nat \<Rightarrow> string \<Rightarrow> js_exn + string"
  onSessionDataChange :: "(nat \<Rightarrow> js_exn option) option"
  newDate :: "nat \<Rightarrow> nat"

text \<open>
  What the session has done to the outside so far: how often it called \<^verbatim>\<open>borrow\<close> and
  \<^verbatim>\<open>returnAndWait\<close>, and the records it handed to the callback.
\<close>

record pool_trace =
  borrowCalls :: nat
  returnCalls :: nat
  notified :: "AgentSessionData list"

definition emptyData :: "string \<Rightarrow> AgentSessionData" where
  "emptyData sid =
     \<lparr>sessionId_D = sid, item_D = None, borrowToken_D = None, borrowedAt_D = None\<rparr>"

text \<open>The constructor: \<^verbatim>\<open>this.data = config.initialData ?? { ...all null }\<close>.\<close>

definition newAgentSession :: "AgentSessionConfig \<Rightarrow> AgentSession" where
  "newAgentSession config =
     \<lparr>sessionId = sessionId_C config,
      data = (case initialData_C config of
                Some d \<Rightarrow> d
              | None \<Rightarrow> emptyData (sessionId_C config))\<rparr>"

definition hasSandbox :: "AgentSession \<Rightarrow> bool" where
  "hasSandbox s = (item_D (data s) \<noteq> None \<and> borrowToken_D (data s) \<noteq> None)"

text \<open>
  \<^verbatim>\<open>await this.onSessionDataChange(this.data)\<close>, when a callback is registered: the record
  is handed over, and the callback may throw.
\<close>

definition notify ::
  "pool_env \<Rightarrow> AgentSessionData \<Rightarrow> pool_trace \<Rightarrow> (js_exn + unit) \<times> pool_trace" where
  "notify env d t =
     (case onSessionDataChange env of
        None \<Rightarrow> (Inr (), t)
      | Some cb \<Rightarrow>
          (case cb (length (notified t)) of
             Some e \<Rightarrow> (Inl e, t\<lparr>notified := notified t @ [d]\<rparr>)
           | None \<Rightarrow> (Inr (), t\<lparr>notified := notified t @ [d]\<rparr>)))"

definition ensureSandbox ::
  "pool_env \<Rightarrow> AgentSession \<Rightarrow> pool_trace
     \<Rightarrow> (js_exn + BorrowedSandbox) \<times> AgentSession \<times> pool_trace" where
  "ensureSandbox env s t =
     (case (item_D (data s), borrowToken_D (data s)) of
        (Some i, Some b) \<Rightarrow>
          (Inr \<lparr>item_B = i, borrowToken_B = b, sessionId_B = sessionId s\<rparr>, s, t)
      | _ \<Rightarrow>
          (case sdk_borrow (borrowFetch env (borrowCalls t)) of
             Inl e \<Rightarrow> (Inl e, s, t\<lparr>borrowCalls := Suc (borrowCalls t)\<rparr>)
           | Inr borrowResult \<Rightarrow>
               (let t1 = t\<lparr>borrowCalls := Suc (borrowCalls t)\<rparr>;
                    d = \<lparr>sessionId_D = sessionId s,
                         item_D = Some (item_O borrowResult),
                         borrowToken_D = Some (borrow_token_O borrowResult),
                         borrowedAt_D = Some (newDate env (borrowCalls t))\<rparr>;
                    s1 = s\<lparr>data := d\<rparr>
                in case notify env d t1 of
                     (Inl e, t2) \<Rightarrow> (Inl e, s1, t2)
                   | (Inr _, t2) \<Rightarrow>
                       (Inr \<lparr>item_B = item_O borrowResult,
                             borrowToken_B = borrow_token_O borrowResult,
                             sessionId_B = sessionId s\<rparr>, s1, t2))))"

definition releaseSandbox ::
  "pool_env \<Rightarrow> AgentSession \<Rightarrow> pool_trace \<Rightarrow> (js_exn + unit) \<times> AgentSession \<times> pool_trace" where
  "releaseSandbox env s t =
     (if \<not> hasSandbox s then (Inr (), s, t)
      else
        (case sdk_returnAndWait (returnFetch env (returnCalls t))
                (waitForOperation env (returnCalls t)) of
           Inl e \<Rightarrow> (Inl e, s, t\<lparr>returnCalls := Suc (returnCalls t)\<rparr>)
         | Inr _ \<Rightarrow>
             (let t1 = t\<lparr>returnCalls := Suc (returnCalls t)\<rparr>;
                  d = emptyData (sessionId s);
                  s1 = s\<lparr>data := d\<rparr>
              in case notify env d t1 of
                   (res, t2) \<Rightarrow> (res, s1, t2))))"

text \<open>A sequence of \<^verbatim>\<open>ensureSandbox\<close> calls on one instance, each awaited before the next.\<close>

fun ensureMany ::
  "pool_env \<Rightarrow> nat \<Rightarrow> AgentSession \<Rightarrow> pool_trace
     \<Rightarrow> (js_exn + BorrowedSandbox) list \<times> AgentSession \<times> pool_trace" where
  "ensureMany env 0 s t = ([], s, t)"
| "ensureMany env (Suc n) s t =
     (case ensureSandbox env s t of
        (r, s1, t1) \<Rightarrow>
          (case ensureMany env n s1 t1 of
             (rs, s2, t2) \<Rightarrow> (r # rs, s2, t2)))"

text \<open>
  Any sequence of the two mutating operations on one instance. The results of the
  calls are dropped: a caller may go on after a call that threw.
\<close>

datatype session_op = EnsureSandbox | ReleaseSandbox

fun runOps ::
  "pool_env \<Rightarrow> session_op list \<Rightarrow> AgentSession \<Rightarrow> pool_trace \<Rightarrow> AgentSession \<times> pool_trace" where
  "runOps env [] s t = (s, t)"
| "runOps env (EnsureSandbox # ops) s t =
     (case ensureSandbox env s t of (r, s1, t1) \<Rightarrow> runOps env ops s1 t1)"
| "runOps env (ReleaseSandbox # ops) s t =
     (case releaseSandbox env s t of (r, s1, t1) \<Rightarrow> runOps env ops s1 t1)"

definition populated :: "AgentSessionData \<Rightarrow> bool" where
  "populated d = ((item_D d = None) = (borrowToken_D d = None))"

text \<open>
  \<^verbatim>\<open>getAgentSession\<close> of the sandbox tools: the stored row of the chat becomes the
  initial data only when sandbox id, exec URL and borrow token are all truthy (neither
  null nor the empty string). The row is what \<^verbatim>\<open>getSandboxSessionByChatId\<close> answered.
\<close>

record SandboxSessionRow =
  sessionId_Q :: string
  sandboxId_Q :: "string option"
  execUrl_Q :: "string option"
  borrowToken_Q :: "string option"
  borrowedAt_Q :: "nat option"

definition truthy :: "string option \<Rightarrow> bool" where
  "truthy v = (case v of None \<Rightarrow> False | Some x \<Rightarrow> x \<noteq> [])"

definition getAgentSession :: "string \<Rightarrow> SandboxSessionRow option \<Rightarrow> AgentSession" where
  "getAgentSession chatId existingSession =
     newAgentSession
       \<lparr>sessionId_C = (case existingSession of Some row \<Rightarrow> sessionId_Q row | None \<Rightarrow> chatId),
        initialData_C =
          (case existingSession of
             None \<Rightarrow> None
           | Some row \<Rightarrow>
               (case (sandboxId_Q row, execUrl_Q row, borrowToken_Q row) of
                  (Some sandboxId, Some url, Some token) \<Rightarrow>
                    if truthy (sandboxId_Q row) \<and> truthy (execUrl_Q row)
                       \<and> truthy (borrowToken_Q row)
                    then Some \<lparr>sessionId_D = sessionId_Q row,
                               item_D = Some \<lparr>execUrl = url, id_I = sandboxId\<rparr>,
                               borrowToken_D = Some token,
                               borrowedAt_D = borrowedAt_Q row\<rparr>
                    else None
                | _ \<Rightarrow> None))\<rparr>"

section \<open>Execution Record (ShellStream)\<close>

text \<open>
  The row of the \<^verbatim>\<open>ShellStream\<close> table, without its two time stamps, which no reader in
  this development looks at.
\<close>

record ShellStream =
  id_S :: string
  sessionId_S :: string
  chatId_S :: string
  command_S :: string
  stdout :: string
  stderr :: string
  exitCode :: "int option"
  error :: "string option"
  done_S :: bool

text \<open>
  Modelled from the spec: \<^verbatim>\<open>createShellStream\<close> of \<^verbatim>\<open>lib/db/queries\<close> is not among the
  sources. The record is created with \<^verbatim>\<open>done=false\<close> and empty output, the defaults of
  the table.
\<close>

definition createShellStream :: "string \<Rightarrow> string \<Rightarrow> string \<Rightarrow> string \<Rightarrow> ShellStream" where
  "createShellStream streamId sid chatId cmd =
     \<lparr>id_S = streamId, sessionId_S = sid, chatId_S = chatId, command_S = cmd,
      stdout = [], stderr = [], exitCode = None, error = None, done_S = False\<rparr>"

text \<open>
  The argument of \<^verbatim>\<open>updateShellStream\<close> next to the stream id: each field is present or
  left out.
\<close>

record ShellStreamUpdate =
  stdout_U :: "string option"
  stderr_U :: "string option"
  exitCode_U :: "int option"
  error_U :: "string option"
  done_U :: "bool option"

definition noUpdate :: ShellStreamUpdate where
  "noUpdate = \<lparr>stdout_U = None, stderr_U = None, exitCode_U = None, error_U = None,
               done_U = None\<rparr>"

text \<open>
  Modelled from the spec: \<^verbatim>\<open>updateShellStream\<close> of \<^verbatim>\<open>lib/db/queries\<close> is not among the
  sources. A write overwrites the fields it names with the values it carries and
  leaves the others as they are.
\<close>

definition applyUpdate :: "ShellStreamUpdate \<Rightarrow> ShellStream \<Rightarrow> ShellStream" where
  "applyUpdate u r =
     r\<lparr>stdout := (case stdout_U u of Some v \<Rightarrow> v | None \<Rightarrow> stdout r),
       stderr := (case stderr_U u of Some v \<Rightarrow> v | None \<Rightarrow> stderr r),
       exitCode := (case exitCode_U u of Some v \<Rightarrow> Some v | None \<Rightarrow> exitCode r),
       error := (case error_U u of Some v \<Rightarrow> Some v | None \<Rightarrow> error r),
       done_S := (case done_U u of Some v \<Rightarrow> v | None \<Rightarrow> done_S r)\<rparr>"

text \<open>
  The store as one Command Runner sees it: the number of writes it has attempted and
  the writes that went through, oldest first. Whether the k-th attempt throws is the
  store's answer \<open>dbFail k\<close>; a write that throws changes nothing.
\<close>

record db =
  attempts :: nat
  writes :: "ShellStreamUpdate list"

definition db0 :: db where
  "db0 = \<lparr>attempts = 0, writes = []\<rparr>"

definition updateShellStream ::
  "(nat \<Rightarrow> js_exn option) \<Rightarrow> ShellStreamUpdate \<Rightarrow> db \<Rightarrow> (js_exn + unit) \<times> db" where
  "updateShellStream dbFail u d =
     (case dbFail (attempts d) of
        Some e \<Rightarrow> (Inl e, d\<lparr>attempts := Suc (attempts d)\<rparr>)
      | None \<Rightarrow> (Inr (), d\<lparr>attempts := Suc (attempts d), writes := writes d @ [u]\<rparr>))"

text \<open>The states a record goes through under a list of writes, and the last of them.\<close>

fun history :: "ShellStream \<Rightarrow> ShellStreamUpdate list \<Rightarrow> ShellStream list" where
  "history r [] = [r]"
| "history r (u # us) = r # history (applyUpdate u r) us"

definition finalRecord :: "ShellStream \<Rightarrow> ShellStreamUpdate list \<Rightarrow> ShellStream" where
  "finalRecord r us = foldl (\<lambda>x u. applyUpdate u x) r us"

section \<open>Command Runner over a pooled sandbox (execShell of the sandbox tools)\<close>

datatype exec_status = started | completed | failed

record ExecResponse =
  commandId :: string
  status_E :: exec_status
  exitCode_E :: "int option"
  error_E :: "string option"

record LogsResponse =
  logs :: string
  offset :: int
  done_L :: bool
  exitCode_L :: "int option"

text \<open>
  What one run of the asynchronous part of \<^verbatim>\<open>execShell\<close> meets: whether
  \<^verbatim>\<open>getAgentSession\<close> throws, what \<^verbatim>\<open>agentSession.exec\<close> gives, what the i-th call of
  \<^verbatim>\<open>agentSession.logs\<close> gives for the command id and offset it is asked with, how many
  milliseconds pass during the awaited calls of the i-th loop iteration, and which
  writes the store refuses.
\<close>

record runner_env =
  getAgentSession_R :: "js_exn option"
  exec_R :: "js_exn + ExecResponse"
  logs_R :: "nat \<Rightarrow> string \<Rightarrow> int \<Rightarrow> js_exn + LogsResponse"
  elapsed_R :: "nat \<Rightarrow> nat"
  dbFail_R :: "nat \<Rightarrow> js_exn option"

definition stdoutUpdate :: "string \<Rightarrow> ShellStreamUpdate" where
  "stdoutUpdate s = noUpdate\<lparr>stdout_U := Some s\<rparr>"

definition stderrUpdate :: "string \<Rightarrow> ShellStreamUpdate" where
  "stderrUpdate s = noUpdate\<lparr>stderr_U := Some s\<rparr>"

definition errorUpdate :: "string \<Rightarrow> ShellStreamUpdate" where
  "errorUpdate m = noUpdate\<lparr>error_U := Some m, done_U := Some True\<rparr>"

definition completedUpdate :: "LogsResponse \<Rightarrow> ShellStreamUpdate" where
  "completedUpdate logsResult =
     noUpdate\<lparr>stdout_U := Some (logs logsResult),
              exitCode_U := Some (case exitCode_L logsResult of Some c \<Rightarrow> c | None \<Rightarrow> 0),
              done_U := Some True\<rparr>"

text \<open>
  The \<^verbatim>\<open>while (Date.now() - startTime < timeoutMs)\<close> loop. \<open>el\<close> is what
  \<^verbatim>\<open>Date.now() - startTime\<close> reads at the loop test; the clock never runs backwards, an
  iteration that goes round adds its awaited calls and the 500 ms of the timer. The
  result is the throw that left the loop, or what the clock reads when the loop is left
  normally (by \<^verbatim>\<open>break\<close> or by the test).
\<close>

function pollLoop ::
  "runner_env \<Rightarrow> nat \<Rightarrow> string \<Rightarrow> nat \<Rightarrow> nat \<Rightarrow> int \<Rightarrow> string \<Rightarrow> db \<Rightarrow> (js_exn + nat) \<times> db" where
  "pollLoop env timeoutMs cid i el ofs lastStdout d =
     (if el < timeoutMs then
        (case logs_R env i cid ofs of
           Inl e \<Rightarrow> (Inl e, d)
         | Inr logsResult \<Rightarrow>
             (case (if logs logsResult \<noteq> lastStdout
                    then updateShellStream (dbFail_R env) (stdoutUpdate (logs logsResult)) d
                    else (Inr (), d)) of
                (Inl e, d1) \<Rightarrow> (Inl e, d1)
              | (Inr _, d1) \<Rightarrow>
                  if done_L logsResult then
                    (case updateShellStream (dbFail_R env) (completedUpdate logsResult) d1 of
                       (Inl e, d2) \<Rightarrow> (Inl e, d2)
                     | (Inr _, d2) \<Rightarrow> (Inr (el + elapsed_R env i), d2))
                  else
                    pollLoop env timeoutMs cid (Suc i) (el + elapsed_R env i + 500)
                      (offset logsResult)
                      (if logs logsResult \<noteq> lastStdout then logs logsResult else lastStdout)
                      d1))
      else (Inr el, d))"
  by pat_completeness auto
termination
  by (relation "measure (\<lambda>(env, timeoutMs, cid, i, el, ofs, lastStdout, d). timeoutMs - el)") auto

declare pollLoop.simps [simp del]

text \<open>The body of the \<^verbatim>\<open>try\<close> block, with the time-out check after the loop.\<close>

definition execShell_try :: "runner_env \<Rightarrow> nat \<Rightarrow> db \<Rightarrow> (js_exn + unit) \<times> db" where
  "execShell_try env timeoutMs d =
     (case getAgentSession_R env of
        Some e \<Rightarrow> (Inl e, d)
      | None \<Rightarrow>
          (case exec_R env of
             Inl e \<Rightarrow> (Inl e, d)
           | Inr execResult \<Rightarrow>
               (case pollLoop env timeoutMs (commandId execResult) 0 0 (- 1) [] d of
                  (Inl e, d1) \<Rightarrow> (Inl e, d1)
                | (Inr el, d1) \<Rightarrow>
                    if el \<ge> timeoutMs
                    then updateShellStream (dbFail_R env) (errorUpdate ''Command timed out'') d1
                    else (Inr (), d1))))"

text \<open>
  The whole asynchronous function: the \<^verbatim>\<open>catch\<close> writes the message of whatever the
  body threw. What the handler's own write throws leaves the function unhandled.
\<close>

definition execShell_async :: "runner_env \<Rightarrow> nat \<Rightarrow> db \<Rightarrow> db" where
  "execShell_async env timeoutMs d =
     (case execShell_try env timeoutMs d of
        (Inl e, d1) \<Rightarrow> snd (updateShellStream (dbFail_R env) (errorUpdate (errorMessage e)) d1)
      | (Inr _, d1) \<Rightarrow> d1)"

section \<open>Command Runner over a managed container (execShellInSandboxStreaming)\<close>

datatype stream_type = Stdout | Stderr

text \<open>
  What one run meets at the container service: whether creating the app, the volume
  and the sandbox throws, whether a secret can be loaded (with the required keys, or
  at the second attempt without), whether authenticating the git client throws, whether
  starting the command throws, the chunks the two output readers receive in the order
  of their arrival (a read may throw instead), what waiting for the exit code gives,
  whether terminating the sandbox throws, and, once one reader has thrown, how many
  chunks the other reader still handles before the \<^verbatim>\<open>catch\<close> of the function writes,
  and how many more before the \<^verbatim>\<open>.catch\<close> of the caller writes.
\<close>

type_synonym reads = "(stream_type \<times> (js_exn + string)) list"

record modal_env =
  appsFromName_M :: "js_exn option"
  volumesFromName_M :: "js_exn option"
  sandboxesCreate_M :: "js_exn option"
  secretWithKeys_M :: bool
  secretPlain_M :: bool
  ghAuthExec_M :: "js_exn option"
  ghAuthWait_M :: "js_exn option"
  shellExec_M :: "js_exn option"
  reads_M :: reads
  shellWait_M :: "js_exn + int"
  terminate_M :: "js_exn option"
  lateBeforeCatch_M :: nat
  lateBeforeDotCatch_M :: nat
  dbFail_M :: "nat \<Rightarrow> js_exn option"

definition otherReader :: "stream_type \<Rightarrow> stream_type" where
  "otherReader ty = (case ty of Stdout \<Rightarrow> Stderr | Stderr \<Rightarrow> Stdout)"

text \<open>The write of a reader: the whole buffer to the field of its type.\<close>

definition fieldUpdate :: "stream_type \<Rightarrow> string \<Rightarrow> ShellStreamUpdate" where
  "fieldUpdate ty buf = (case ty of Stdout \<Rightarrow> stdoutUpdate buf | Stderr \<Rightarrow> stderrUpdate buf)"

text \<open>
  The reader that is still running after the other one has thrown: which one it is,
  the reads yet to come (those of the reader that threw among them never happen), and
  its buffer.
\<close>

record survivor =
  reader_V :: stream_type
  pending_V :: reads
  buffer_V :: string

text \<open>
  The two \<^verbatim>\<open>readStream\<close> loops under \<^verbatim>\<open>Promise.all\<close>. Each loop appends the chunk it read
  to its buffer and writes the whole buffer to its field; the loops take turns at
  their awaits, in the order the chunks arrive. Both buffers start empty, so each is
  also the value of \<^verbatim>\<open>fullStdout\<close> (\<^verbatim>\<open>fullStderr\<close>). The first throw, of a read or of a
  write, rejects the \<^verbatim>\<open>Promise.all\<close>. Nothing stops the other reader then: it is
  handed back as the survivor.
\<close>

fun readStreams ::
  "(nat \<Rightarrow> js_exn option) \<Rightarrow> reads \<Rightarrow> string \<Rightarrow> string \<Rightarrow> db
     \<Rightarrow> (js_exn + unit) \<times> string \<times> string \<times> db \<times> survivor option" where
  "readStreams dbFail [] fullStdout fullStderr d = (Inr (), fullStdout, fullStderr, d, None)"
| "readStreams dbFail ((Stdout, Inl e) # rest) fullStdout fullStderr d =
     (Inl e, fullStdout, fullStderr, d,
      Some \<lparr>reader_V = Stderr, pending_V = rest, buffer_V = fullStderr\<rparr>)"
| "readStreams dbFail ((Stderr, Inl e) # rest) fullStdout fullStderr d =
     (Inl e, fullStdout, fullStderr, d,
      Some \<lparr>reader_V = Stdout, pending_V = rest, buffer_V = fullStdout\<rparr>)"
| "readStreams dbFail ((Stdout, Inr chunk) # rest) fullStdout fullStderr d =
     (case updateShellStream dbFail (stdoutUpdate (fullStdout @ chunk)) d of
        (Inl e, d1) \<Rightarrow>
          (Inl e, fullStdout @ chunk, fullStderr, d1,
           Some \<lparr>reader_V = Stderr, pending_V = rest, buffer_V = fullStderr\<rparr>)
      | (Inr _, d1) \<Rightarrow> readStreams dbFail rest (fullStdout @ chunk) fullStderr d1)"
| "readStreams dbFail ((Stderr, Inr chunk) # rest) fullStdout fullStderr d =
     (case updateShellStream dbFail (stderrUpdate (fullStderr @ chunk)) d of
        (Inl e, d1) \<Rightarrow>
          (Inl e, fullStdout, fullStderr @ chunk, d1,
           Some \<lparr>reader_V = Stdout, pending_V = rest, buffer_V = fullStdout\<rparr>)
      | (Inr _, d1) \<Rightarrow> readStreams dbFail rest fullStdout (fullStderr @ chunk) d1)"

text \<open>
  The surviving \<^verbatim>\<open>readStream\<close> loop going on for at most \<open>n\<close> more chunks of its own. It
  ends when its stream ends, when a read throws or when its write throws; nobody
  awaits it any more, so its throw goes nowhere. The result says what is left of it.
\<close>

fun lateLoop ::
  "(nat \<Rightarrow> js_exn option) \<Rightarrow> stream_type \<Rightarrow> nat \<Rightarrow> reads \<Rightarrow> string \<Rightarrow> db
     \<Rightarrow> (reads \<times> string) option \<times> db" where
  "lateLoop dbFail ty 0 evs buf d = (Some (evs, buf), d)"
| "lateLoop dbFail ty (Suc n) [] buf d = (None, d)"
| "lateLoop dbFail ty (Suc n) ((ty', r) # rest) buf d =
     (if ty' \<noteq> ty then lateLoop dbFail ty (Suc n) rest buf d
      else
        (case r of
           Inl e \<Rightarrow> (None, d)
         | Inr chunk \<Rightarrow>
             (case updateShellStream dbFail (fieldUpdate ty (buf @ chunk)) d of
                (Inl e, d1) \<Rightarrow> (None, d1)
              | (Inr _, d1) \<Rightarrow> lateLoop dbFail ty n rest (buf @ chunk) d1)))"

definition lateReads ::
  "(nat \<Rightarrow> js_exn option) \<Rightarrow> nat \<Rightarrow> survivor option \<Rightarrow> db \<Rightarrow> survivor option \<times> db" where
  "lateReads dbFail n sv d =
     (case sv of
        None \<Rightarrow> (None, d)
      | Some v \<Rightarrow>
          (case lateLoop dbFail (reader_V v) n (pending_V v) (buffer_V v) d of
             (None, d1) \<Rightarrow> (None, d1)
           | (Some (evs, buf), d1) \<Rightarrow> (Some (v\<lparr>pending_V := evs, buffer_V := buf\<rparr>), d1)))"

text \<open>The survivor going on until it ends by itself.\<close>

definition lateReadsAll ::
  "(nat \<Rightarrow> js_exn option) \<Rightarrow> survivor option \<Rightarrow> db \<Rightarrow> db" where
  "lateReadsAll dbFail sv d =
     snd (lateReads dbFail (case sv of None \<Rightarrow> 0 | Some v \<Rightarrow> length (pending_V v)) sv d)"

definition finalUpdate :: "string \<Rightarrow> string \<Rightarrow> int \<Rightarrow> ShellStreamUpdate" where
  "finalUpdate fullStdout fullStderr code =
     noUpdate\<lparr>stdout_U := Some fullStdout, stderr_U := Some fullStderr,
              exitCode_U := Some code, done_U := Some True\<rparr>"

text \<open>
  The body of the \<^verbatim>\<open>try\<close> block. Loading the secret never throws out of its own
  handlers; a secret is there when either attempt succeeded. A survivor is left only
  when a reader threw.
\<close>

definition streaming_try ::
  "modal_env \<Rightarrow> db \<Rightarrow> (js_exn + string \<times> string \<times> int) \<times> db \<times> survivor option" where
  "streaming_try env d =
     (case (if secretWithKeys_M env \<or> secretPlain_M env
            then (case ghAuthExec_M env of Some e \<Rightarrow> Some e | None \<Rightarrow> ghAuthWait_M env)
            else None) of
        Some e \<Rightarrow> (Inl e, d, None)
      | None \<Rightarrow>
          (case shellExec_M env of
             Some e \<Rightarrow> (Inl e, d, None)
           | None \<Rightarrow>
               (case readStreams (dbFail_M env) (reads_M env) [] [] d of
                  (Inl e, fullStdout, fullStderr, d1, sv) \<Rightarrow> (Inl e, d1, sv)
                | (Inr _, fullStdout, fullStderr, d1, sv) \<Rightarrow>
                    (case shellWait_M env of
                       Inl e \<Rightarrow> (Inl e, d1, None)
                     | Inr code \<Rightarrow>
                         (case updateShellStream (dbFail_M env)
                                 (finalUpdate fullStdout fullStderr code) d1 of
                            (Inl e, d2) \<Rightarrow> (Inl e, d2, None)
                          | (Inr _, d2) \<Rightarrow> (Inr (fullStdout, fullStderr, code), d2, None))))))"

text \<open>
  The \<^verbatim>\<open>catch\<close> of the function: it writes the error and throws it again, unless its
  own write throws first. A survivor may get some chunks in before that write.
\<close>

definition streaming_catch ::
  "modal_env \<Rightarrow> js_exn \<Rightarrow> db \<Rightarrow> survivor option
     \<Rightarrow> (js_exn + string \<times> string \<times> int) \<times> db \<times> survivor option" where
  "streaming_catch env e d sv =
     (case lateReads (dbFail_M env) (lateBeforeCatch_M env) sv d of
        (sv1, d1) \<Rightarrow>
          (case updateShellStream (dbFail_M env) (errorUpdate (errorMessage e)) d1 of
             (Inl e2, d2) \<Rightarrow> (Inl e2, d2, sv1)
           | (Inr _, d2) \<Rightarrow> (Inl e, d2, sv1)))"

text \<open>
  The function: set-up outside the \<^verbatim>\<open>try\<close>, the \<^verbatim>\<open>try\<close> with its \<^verbatim>\<open>catch\<close>, and the
  \<^verbatim>\<open>finally\<close> whose throw replaces whatever the function was about to give.
\<close>

definition execShellInSandboxStreaming ::
  "modal_env \<Rightarrow> db \<Rightarrow> (js_exn + string \<times> string \<times> int) \<times> db \<times> survivor option" where
  "execShellInSandboxStreaming env d =
     (case appsFromName_M env of
        Some e \<Rightarrow> (Inl e, d, None)
      | None \<Rightarrow>
          (case volumesFromName_M env of
             Some e \<Rightarrow> (Inl e, d, None)
           | None \<Rightarrow>
               (case sandboxesCreate_M env of
                  Some e \<Rightarrow> (Inl e, d, None)
                | None \<Rightarrow>
                    (case (case streaming_try env d of
                             (Inl e, d1, sv) \<Rightarrow> streaming_catch env e d1 sv
                           | (Inr v, d1, sv) \<Rightarrow> (Inr v, d1, sv)) of
                       (res, d3, sv3) \<Rightarrow>
                         (case terminate_M env of
                            Some e3 \<Rightarrow> (Inl e3, d3, sv3)
                          | None \<Rightarrow> (res, d3, sv3))))))"

text \<open>
  The store just before the \<^verbatim>\<open>.catch\<close> of the caller writes: a survivor may have got
  more chunks in since the function threw.
\<close>

definition beforeDotCatch :: "modal_env \<Rightarrow> db \<Rightarrow> survivor option \<Rightarrow> survivor option \<times> db" where
  "beforeDotCatch env d sv = lateReads (dbFail_M env) (lateBeforeDotCatch_M env) sv d"

text \<open>
  What the tool starts without awaiting it: the function, and the \<^verbatim>\<open>.catch\<close> on its
  promise that writes the error once more. After that a survivor goes on until it ends.
\<close>

definition execShell_modal :: "modal_env \<Rightarrow> db \<Rightarrow> db" where
  "execShell_modal env d =
     (case execShellInSandboxStreaming env d of
        (Inl e, d1, sv) \<Rightarrow>
          (case beforeDotCatch env d1 sv of
             (sv2, d2) \<Rightarrow>
               lateReadsAll (dbFail_M env) sv2
                 (snd (updateShellStream (dbFail_M env) (errorUpdate (errorMessage e)) d2)))
      | (Inr _, d1, sv) \<Rightarrow> d1)"

section \<open>Result polling (getShellResult)\<close>

text \<open>The three objects the tool returns.\<close>

datatype shell_result =
    NotFound string
  | Finished bool string "int option" string "string option" "string option"
  | TimedOut string string string

fun success :: "shell_result \<Rightarrow> bool" where
  "success (NotFound streamId) = False"
| "success (Finished b streamId code out err msg) = b"
| "success (TimedOut streamId out err) = False"

text \<open>\<^verbatim>\<open>x || null\<close> on a string that may be null: the empty string is falsy too.\<close>

definition orNull :: "string option \<Rightarrow> string option" where
  "orNull v = (case v of None \<Rightarrow> None | Some x \<Rightarrow> if x = [] then None else Some x)"

text \<open>\<^verbatim>\<open>stream?.stdout || ''\<close>\<close>

definition orEmpty :: "string option \<Rightarrow> string" where
  "orEmpty v = (case v of None \<Rightarrow> [] | Some x \<Rightarrow> x)"

definition finished :: "string \<Rightarrow> ShellStream \<Rightarrow> shell_result" where
  "finished streamId stream =
     Finished (exitCode stream = Some 0) streamId (exitCode stream) (stdout stream)
       (orNull (Some (stderr stream))) (orNull (error stream))"

record result_env =
  getShellStream_G :: "nat \<Rightarrow> string \<Rightarrow> js_exn + ShellStream option"
  elapsed_G :: "nat \<Rightarrow> nat"

text \<open>
  The polling loop of the tool, with the clock as in \<open>pollLoop\<close>: \<open>i\<close> counts the reads
  of the record, \<open>el\<close> is \<^verbatim>\<open>Date.now() - startTime\<close> at the loop test.
\<close>

function getShellResult ::
  "result_env \<Rightarrow> string \<Rightarrow> nat \<Rightarrow> nat \<Rightarrow> nat \<Rightarrow> js_exn + shell_result" where
  "getShellResult env streamId timeoutMs i el =
     (if el < timeoutMs then
        (case getShellStream_G env i streamId of
           Inl e \<Rightarrow> Inl e
         | Inr None \<Rightarrow> Inr (NotFound streamId)
         | Inr (Some stream) \<Rightarrow>
             if done_S stream then Inr (finished streamId stream)
             else getShellResult env streamId timeoutMs (Suc i) (el + elapsed_G env i + 500))
      else
        (case getShellStream_G env i streamId of
           Inl e \<Rightarrow> Inl e
         | Inr stream \<Rightarrow>
             Inr (TimedOut streamId (orEmpty (map_option stdout stream))
                    (orEmpty (map_option stderr stream)))))"
  by pat_completeness auto
termination
  by (relation "measure (\<lambda>(env, streamId, timeoutMs, i, el). timeoutMs - el)") auto

declare getShellResult.simps [simp del]

section \<open>Streaming Bridge (GET of the shell stream route)\<close>

text \<open>
  The events of the channel, by their \<^verbatim>\<open>type\<close>. The \<^verbatim>\<open>initial\<close> event carries, in this
  order, id, session id, command, stdout, stderr, exit code, error and done of the
  record.
\<close>

datatype sse_event =
    Initial string string string string string "int option" "string option" bool
  | StdoutData string
  | StderrData string
  | Complete "int option" "string option"
  | ErrorEvent string
  | Done

text \<open>
  The closure of \<^verbatim>\<open>start\<close>: the flag \<^verbatim>\<open>isClientConnected\<close>, the controller (whether it is
  closed, and what has been enqueued), the two last-seen lengths, the poll count, and
  whether a timer for the next \<^verbatim>\<open>poll\<close> is pending. The controller of a stream refuses
  \<^verbatim>\<open>enqueue\<close> by throwing exactly when the stream is closed or cancelled.
\<close>

record bridge =
  isClientConnected :: bool
  closed :: bool
  sent :: "sse_event list"
  lastStdoutLength :: nat
  lastStderrLength :: nat
  pollCount :: nat
  scheduled :: bool

definition maxPolls :: nat where
  "maxPolls = 600"

definition sendEvent :: "sse_event \<Rightarrow> bridge \<Rightarrow> bridge" where
  "sendEvent ev b =
     (if \<not> isClientConnected b then b
      else if closed b then b\<lparr>isClientConnected := False\<rparr>
      else b\<lparr>sent := sent b @ [ev]\<rparr>)"

definition close :: "bridge \<Rightarrow> bridge" where
  "close b = b\<lparr>closed := True\<rparr>"

text \<open>The subscriber goes away: the stream is cancelled and \<^verbatim>\<open>cancel()\<close> clears the flag.\<close>

definition cancel :: "bridge \<Rightarrow> bridge" where
  "cancel b = b\<lparr>isClientConnected := False, closed := True\<rparr>"

definition initialEvent :: "ShellStream \<Rightarrow> sse_event" where
  "initialEvent r =
     Initial (id_S r) (sessionId_S r) (command_S r) (stdout r) (stderr r) (exitCode r)
       (error r) (done_S r)"

definition start :: "ShellStream \<Rightarrow> bridge" where
  "start initialStream =
     (let b0 = \<lparr>isClientConnected = True, closed = False, sent = [],
                lastStdoutLength = 0, lastStderrLength = 0, pollCount = 0,
                scheduled = False\<rparr>;
          b1 = sendEvent (initialEvent initialStream) b0
      in if done_S initialStream then close (sendEvent Done b1)
         else b1\<lparr>lastStdoutLength := length (stdout initialStream),
                 lastStderrLength := length (stderr initialStream),
                 pollCount := 0,
                 scheduled := True\<rparr>)"

text \<open>
  One run of \<^verbatim>\<open>poll\<close> when its timer fires: \<open>fetched\<close> is what \<^verbatim>\<open>getShellStream\<close> gives
  this time, \<open>cancelled\<close> says whether the subscriber went away while the read was
  awaited.
\<close>

definition poll :: "bridge \<Rightarrow> (js_exn + ShellStream option) \<Rightarrow> bool \<Rightarrow> bridge" where
  "poll b fetched cancelled =
     (if \<not> isClientConnected b \<or> pollCount b \<ge> maxPolls
      then close (b\<lparr>scheduled := False\<rparr>)
      else
        (let b1 = b\<lparr>pollCount := pollCount b + 1, scheduled := False\<rparr>;
             b2 = (if cancelled then cancel b1 else b1)
         in case fetched of
              Inl e \<Rightarrow> close (sendEvent (ErrorEvent (errorMessage e)) b2)
            | Inr None \<Rightarrow> close (sendEvent (ErrorEvent ''Stream not found'') b2)
            | Inr (Some currentStream) \<Rightarrow>
                (let b3 = (if length (stdout currentStream) > lastStdoutLength b2
                           then (sendEvent
                                   (StdoutData (drop (lastStdoutLength b2) (stdout currentStream)))
                                   b2)\<lparr>lastStdoutLength := length (stdout currentStream)\<rparr>
                           else b2);
                     b4 = (if length (stderr currentStream) > lastStderrLength b3
                           then (sendEvent
                                   (StderrData (drop (lastStderrLength b3) (stderr currentStream)))
                                   b3)\<lparr>lastStderrLength := length (stderr currentStream)\<rparr>
                           else b3)
                 in if done_S currentStream
                    then close (sendEvent Done
                                  (sendEvent (Complete (exitCode currentStream)
                                                (error currentStream)) b4))
                    else b4\<lparr>scheduled := True\<rparr>)))"

text \<open>The timers fire one after the other for as long as one is pending.\<close>

fun runPolls :: "bridge \<Rightarrow> ((js_exn + ShellStream option) \<times> bool) list \<Rightarrow> bridge" where
  "runPolls b [] = b"
| "runPolls b ((fetched, cancelled) # rest) =
     (if scheduled b then runPolls (poll b fetched cancelled) rest else b)"

text \<open>
  The handler: the stream id of the query string (an empty one is as good as none),
  the signed-in user, the look-up of the record, then the event stream.
\<close>

datatype get_response = ErrorResponse string string | EventStream bridge

definition GET ::
  "string option \<Rightarrow> bool \<Rightarrow> (js_exn + ShellStream option) \<Rightarrow> js_exn + get_response" where
  "GET streamId user lookup =
     (if \<not> truthy streamId then Inr (ErrorResponse ''bad_request:api'' ''Missing stream ID'')
      else if \<not> user then Inr (ErrorResponse ''unauthorized:chat'' [])
      else
        (case lookup of
           Inl e \<Rightarrow> Inl e
         | Inr None \<Rightarrow> Inr (ErrorResponse ''not_found:database'' ''Stream not found'')
         | Inr (Some initialStream) \<Rightarrow> Inr (EventStream (start initialStream))))"

section \<open>The subscriber (ShellTerminal)\<close>

record ShellStreamState =
  stdout_T :: string
  stderr_T :: string
  exitCode_T :: "int option"
  error_T :: "string option"
  done_T :: bool

definition initialState :: ShellStreamState where
  "initialState =
     \<lparr>stdout_T = [], stderr_T = [], exitCode_T = None, error_T = None, done_T = False\<rparr>"

fun onmessage :: "sse_event \<Rightarrow> ShellStreamState \<Rightarrow> ShellStreamState" where
  "onmessage (Initial i sid cmd out err code msg dn) st =
     \<lparr>stdout_T = out, stderr_T = err, exitCode_T = code, error_T = msg, done_T = dn\<rparr>"
| "onmessage (StdoutData s) st = st\<lparr>stdout_T := stdout_T st @ s\<rparr>"
| "onmessage (StderrData s) st = st\<lparr>stderr_T := stderr_T st @ s\<rparr>"
| "onmessage (Complete code msg) st = st\<lparr>exitCode_T := code, error_T := msg, done_T := True\<rparr>"
| "onmessage (ErrorEvent m) st = st\<lparr>error_T := Some m, done_T := True\<rparr>"
| "onmessage Done st = st"

text \<open>The messages in their order; the \<^verbatim>\<open>done\<close> message closes the event source.\<close>

fun receive :: "ShellStreamState \<Rightarrow> sse_event list \<Rightarrow> ShellStreamState" where
  "receive st [] = st"
| "receive st (Done # evs) = st"
| "receive st (ev # evs) = receive (onmessage ev st) evs"

text \<open>Each observed value of a record extends the one before it, in both output fields.\<close>

fun appendOnly :: "ShellStream \<Rightarrow> ShellStream list \<Rightarrow> bool" where
  "appendOnly r [] = True"
| "appendOnly r (x # xs) =
     (prefix (stdout r) (stdout x) \<and> prefix (stderr r) (stderr x) \<and> appendOnly x xs)"

section \<open>Concrete sessions and pools\<close>

text \<open>
  The sandbox and token of the end-to-end scenarios, a session that holds them, a
  fresh session, and a pool that answers every request with one HTTP status and no
  usable body.
\<close>

definition sb1 :: SandboxItem where
  "sb1 = \<lparr>execUrl = ''http://sb-1/'', id_I = ''sb-1''\<rparr>"

definition leasedSession :: AgentSession where
  "leasedSession =
     \<lparr>sessionId = ''chat-1'',
      data = \<lparr>sessionId_D = ''chat-1'', item_D = Some sb1, borrowToken_D = Some ''tok-1'',
              borrowedAt_D = Some 0\<rparr>\<rparr>"

definition freshConfig :: AgentSessionConfig where
  "freshConfig = \<lparr>sessionId_C = ''chat-1'', initialData_C = None\<rparr>"

definition halfConfig :: AgentSessionConfig where
  "halfConfig =
     \<lparr>sessionId_C = ''chat-1'',
      initialData_C = Some \<lparr>sessionId_D = ''chat-1'', item_D = Some sb1, borrowToken_D = None,
                            borrowedAt_D = None\<rparr>\<rparr>"

definition trace0 :: pool_trace where
  "trace0 = \<lparr>borrowCalls = 0, returnCalls = 0, notified = []\<rparr>"

definition poolAnswering :: "nat \<Rightarrow> pool_env" where
  "poolAnswering code =
     \<lparr>borrowFetch = (\<lambda>k. Inr \<lparr>status = code, statusText = [], json = Inl Thrown\<rparr>),
      returnFetch = (\<lambda>k. Inr \<lparr>status = code, statusText = [], json = Inl Thrown\<rparr>),
      waitForOperation = (\<lambda>k operation_id. Inr ''succeeded''),
      onSessionDataChange = Some (\<lambda>k. None),
      newDate = (\<lambda>k. 0)\<rparr>"

text \<open>
  A pool that lends the sandbox of the scenarios and takes it back, with a callback
  that works, and the same pool with a callback that throws.
\<close>

definition poolLending :: pool_env where
  "poolLending =
     \<lparr>borrowFetch = (\<lambda>k. Inr \<lparr>status = 200, statusText = ''OK'',
                               json = Inr \<lparr>item_O = sb1, borrow_token_O = ''tok-1''\<rparr>\<rparr>),
      returnFetch = (\<lambda>k. Inr \<lparr>status = 200, statusText = ''OK'', json = Inr ''op-1''\<rparr>),
      waitForOperation = (\<lambda>k operation_id. Inr ''succeeded''),
      onSessionDataChange = Some (\<lambda>k. None),
      newDate = (\<lambda>k. 7)\<rparr>"

definition poolLendingCallbackThrows :: pool_env where
  "poolLendingCallbackThrows =
     poolLending\<lparr>onSessionDataChange := Some (\<lambda>k. Some (Error ''upsert failed''))\<rparr>"

section \<open>Conditions on a backend and invariants of the runners' writes\<close>










text \<open>A write that touches neither \<^verbatim>\<open>done\<close> nor \<^verbatim>\<open>error\<close>.\<close>

definition outputOnly :: "ShellStreamUpdate \<Rightarrow> bool" where
  "outputOnly u = (done_U u = None \<and> error_U u = None)"

section \<open>Concrete backends\<close>

text \<open>
  A backend that answers the first \<^verbatim>\<open>logs\<close> call with the output so far and every later
  call with only what came after the cursor, reporting completion; and one that never
  reports completion. Starting the session and the command succeed, the store refuses
  nothing, and the awaited calls of an iteration take the given time.
\<close>

definition cursorBackend :: "nat \<Rightarrow> runner_env" where
  "cursorBackend ms =
     \<lparr>getAgentSession_R = None,
      exec_R = Inr \<lparr>commandId = ''cmd-1'', status_E = started, exitCode_E = None,
                    error_E = None\<rparr>,
      logs_R = (\<lambda>i c ofs.
                  if i = 0 then Inr \<lparr>logs = ''abc'', offset = 3, done_L = False, exitCode_L = None\<rparr>
                  else Inr \<lparr>logs = ''d'', offset = 4, done_L = True, exitCode_L = Some 0\<rparr>),
      elapsed_R = (\<lambda>i. ms),
      dbFail_R = (\<lambda>k. None)\<rparr>"

definition silentBackend :: runner_env where
  "silentBackend =
     \<lparr>getAgentSession_R = None,
      exec_R = Inr \<lparr>commandId = ''cmd-1'', status_E = started, exitCode_E = None,
                    error_E = None\<rparr>,
      logs_R = (\<lambda>i c ofs. Inr \<lparr>logs = ''hi'', offset = 2, done_L = False, exitCode_L = None\<rparr>),
      elapsed_R = (\<lambda>i. 0),
      dbFail_R = (\<lambda>k. None)\<rparr>"

text \<open>
  A backend that reports completion at the first call, after awaited calls that took
  1200 ms.
\<close>

definition slowBackend :: runner_env where
  "slowBackend =
     silentBackend
       \<lparr>logs_R := (\<lambda>i c ofs. Inr \<lparr>logs = ''hi'', offset = 2, done_L = True,
                                    exitCode_L = Some 0\<rparr>),
        elapsed_R := (\<lambda>i. 1200)\<rparr>"

text \<open>A backend whose \<^verbatim>\<open>exec\<close> endpoint cannot be reached.\<close>

definition unreachableBackend :: runner_env where
  "unreachableBackend = silentBackend\<lparr>exec_R := Inl (Error ''fetch failed'')\<rparr>"

text \<open>
  A container service where everything works and the command prints to both streams,
  and one where starting the command throws.
\<close>

definition containerOk :: modal_env where
  "containerOk =
     \<lparr>appsFromName_M = None, volumesFromName_M = None, sandboxesCreate_M = None,
      secretWithKeys_M = True, secretPlain_M = True, ghAuthExec_M = None, ghAuthWait_M = None,
      shellExec_M = None,
      reads_M = [(Stdout, Inr ''a''), (Stderr, Inr ''x''), (Stdout, Inr ''bc'')],
      shellWait_M = Inr 0, terminate_M = None,
      lateBeforeCatch_M = 0, lateBeforeDotCatch_M = 0, dbFail_M = (\<lambda>k. None)\<rparr>"

definition containerExecFails :: modal_env where
  "containerExecFails = containerOk\<lparr>shellExec_M := Some (Error ''exec failed'')\<rparr>"

text \<open>
  A container whose command outlives the sandbox: waiting for the exit code throws
  what the service throws then. And one whose stderr reader throws after the first
  chunk of stdout while stdout has more to come.
\<close>

definition containerTimesOut :: modal_env where
  "containerTimesOut = containerOk\<lparr>shellWait_M := Inl (Error ''Sandbox timeout'')\<rparr>"

definition containerReaderThrows :: modal_env where
  "containerReaderThrows =
     containerOk\<lparr>reads_M := [(Stdout, Inr ''a''), (Stderr, Inl (Error ''read failed'')),
                              (Stdout, Inr ''bc'')]\<rparr>"

text \<open>A backend that cannot be reached, with a store that refuses every write.\<close>

definition refusingBackend :: runner_env where
  "refusingBackend = unreachableBackend\<lparr>dbFail_R := (\<lambda>k. Some (Error ''store down''))\<rparr>"

definition record0 :: ShellStream where
  "record0 = createShellStream ''stream-1'' ''chat-1'' ''chat-1'' ''echo hi''"

section \<open>Concrete records and stores\<close>

text \<open>
  The states the record goes through under the pooled runner with the cursor backend,
  and the record the runner leaves when the command completes while the deadline
  passes.
\<close>

definition cursorHistory :: "ShellStream list" where
  "cursorHistory = history record0 (writes (execShell_async (cursorBackend 10) 300000 db0))"

definition lateRecord :: ShellStream where
  "lateRecord = finalRecord record0 (writes (execShell_async slowBackend 1000 db0))"

text \<open>A record whose output grows by appending.\<close>

definition growing :: "ShellStream list" where
  "growing =
     [record0\<lparr>stdout := ''hi''\<rparr>, record0\<lparr>stdout := ''hi there'', stderr := ''warn''\<rparr>]"

text \<open>A store in which every read finds the same record at once.\<close>

definition storeHolding :: "ShellStream \<Rightarrow> result_env" where
  "storeHolding r = \<lparr>getShellStream_G = (\<lambda>i streamId. Inr (Some r)), elapsed_G = (\<lambda>i. 0)\<rparr>"

text \<open>Timers that each find the next record of a list, with the subscriber staying.\<close>

definition ticks :: "ShellStream list \<Rightarrow> ((js_exn + ShellStream option) \<times> bool) list" where
  "ticks rs = map (\<lambda>r. (Inr (Some r), False)) rs"

text \<open>
  The greatest length of a field among a first record and the records read after it.
\<close>

definition seenStdout :: "ShellStream \<Rightarrow> ShellStream list \<Rightarrow> nat" where
  "seenStdout r0 rs = fold max (map (\<lambda>r. length (stdout r)) rs) (length (stdout r0))"

definition seenStderr :: "ShellStream \<Rightarrow> ShellStream list \<Rightarrow> nat" where
  "seenStderr r0 rs = fold max (map (\<lambda>r. length (stderr r)) rs) (length (stderr r0))"

text \<open>
  The bridge after the subscription to a record and the reads of a list of records,
  none of them done: the channel is open with a timer pending, the two counters hold
  the greatest lengths seen, and the poll count is the number of reads.
\<close>

definition tracking :: "bridge \<Rightarrow> ShellStream \<Rightarrow> ShellStream list \<Rightarrow> bool" where
  "tracking b r0 rs =
     (isClientConnected b \<and> \<not> closed b \<and> scheduled b \<and> Done \<notin> set (sent b)
      \<and> lastStdoutLength b = seenStdout r0 rs \<and> lastStderrLength b = seenStderr r0 rs
      \<and> pollCount b = length rs)"

text \<open>
  The bridge follows a record: the channel is open with a timer pending, the last-seen
  lengths are those of the record, and the subscriber's copy of both output fields is
  the record's.
\<close>

definition following :: "bridge \<Rightarrow> ShellStream \<Rightarrow> bool" where
  "following b cur =
     (isClientConnected b \<and> \<not> closed b \<and> scheduled b \<and> Done \<notin> set (sent b)
      \<and> lastStdoutLength b = length (stdout cur) \<and> lastStderrLength b = length (stderr cur)
      \<and> stdout_T (receive initialState (sent b)) = stdout cur
      \<and> stderr_T (receive initialState (sent b)) = stderr cur)"

section \<open>Properties of the Session Manager\<close>

lemma ensureSandbox_reuse:
  "item_D (data s) = Some i \<Longrightarrow> borrowToken_D (data s) = Some b \<Longrightarrow>
   ensureSandbox env s t =
     (Inr \<lparr>item_B = i, borrowToken_B = b, sessionId_B = sessionId s\<rparr>, s, t)"
  by (simp add: ensureSandbox_def)

text \<open>
  C4. While the session holds a sandbox, any number of \<^verbatim>\<open>ensureSandbox\<close> calls in a row
  each return the stored item and token with the instance's session id, and leave the
  session and the trace of outside calls as they were: \<^verbatim>\<open>borrow\<close> is not called at all.
\<close>

theorem ensureSandbox_idempotent_reuse:
  assumes "hasSandbox s"
    and "item_D (data s) = Some i" and "borrowToken_D (data s) = Some b"
  shows "ensureMany env n s t =
           (replicate n (Inr \<lparr>item_B = i, borrowToken_B = b, sessionId_B = sessionId s\<rparr>), s, t)"
proof (induction n)
  case 0
  show ?case by simp
next
  case (Suc n)
  then show ?case by (simp add: ensureSandbox_reuse [OF assms(2,3)])
qed

theorem ensureSandbox_idempotent_reuse_witness:
  "hasSandbox leasedSession \<and>
   ensureMany (poolAnswering 503) 3 leasedSession trace0 =
     (replicate 3 (Inr \<lparr>item_B = sb1, borrowToken_B = ''tok-1'', sessionId_B = ''chat-1''\<rparr>),
      leasedSession, trace0)"
  using ensureSandbox_idempotent_reuse [of leasedSession sb1 "''tok-1''" "poolAnswering 503" 3 trace0]
  by (simp add: hasSandbox_def leasedSession_def)

text \<open>
  From any state, once one \<^verbatim>\<open>ensureSandbox\<close> call has succeeded, the calls that follow
  it add no \<^verbatim>\<open>borrow\<close>: the sequence has borrowed at most once.
\<close>

lemma ensureSandbox_borrows_once:
  assumes "ensureSandbox env s t = (Inr lease, s1, t1)"
  shows "borrowCalls (snd (snd (ensureMany env n s1 t1))) \<le> Suc (borrowCalls t)"
proof -
  have "hasSandbox s1 \<and> borrowCalls t1 \<le> Suc (borrowCalls t)"
    using assms
    by (auto simp: ensureSandbox_def hasSandbox_def notify_def Let_def
             split: option.splits sum.splits prod.splits)
  then obtain i b where "item_D (data s1) = Some i" "borrowToken_D (data s1) = Some b"
    and le: "borrowCalls t1 \<le> Suc (borrowCalls t)"
    by (auto simp: hasSandbox_def)
  then have "ensureMany env n s1 t1 = (replicate n (Inr \<lparr>item_B = i, borrowToken_B = b, sessionId_B = sessionId s1\<rparr>), s1, t1)"
    by (induction n) (simp_all add: ensureSandbox_reuse)
  with le show ?thesis by simp
qed

text \<open>
  C1. The code at the input where the claim fails: the session holds a lease and the
  pool answers \<^verbatim>\<open>POST /return\<close> with 403. \<^verbatim>\<open>releaseSandbox\<close> throws the invalid-token
  error to its caller and the Session Record still holds the lease, so \<^verbatim>\<open>hasSandbox()\<close>
  stays true.
\<close>

theorem releaseSandbox_return_403:
  "releaseSandbox (poolAnswering 403) leasedSession trace0 =
     (Inl (Error ''Invalid borrow token - cannot return sandbox''), leasedSession,
      trace0\<lparr>returnCalls := 1\<rparr>)
   \<and> hasSandbox leasedSession"
  by (simp add: releaseSandbox_def hasSandbox_def leasedSession_def poolAnswering_def
        sdk_returnAndWait_def sdk_return_def ok_def trace0_def)

text \<open>Whatever \<^verbatim>\<open>returnAndWait\<close> throws, the session keeps its lease and the throw goes on.\<close>

lemma releaseSandbox_throw:
  "releaseSandbox env s t = (Inl e, s1, t1) \<Longrightarrow> hasSandbox s \<Longrightarrow>
   sdk_returnAndWait (returnFetch env (returnCalls t)) (waitForOperation env (returnCalls t)) = Inl e'
   \<Longrightarrow> s1 = s \<and> e = e' \<and> hasSandbox s1"
  by (auto simp: releaseSandbox_def)

lemma populated_ensureSandbox:
  "populated (data s) \<Longrightarrow> ensureSandbox env s t = (r, s1, t1) \<Longrightarrow> populated (data s1)"
  by (auto simp: populated_def ensureSandbox_def notify_def Let_def
           split: option.splits sum.splits prod.splits)

lemma populated_releaseSandbox:
  "populated (data s) \<Longrightarrow> releaseSandbox env s t = (r, s1, t1) \<Longrightarrow> populated (data s1)"
  by (auto simp: populated_def releaseSandbox_def emptyData_def notify_def Let_def
           split: option.splits sum.splits prod.splits if_splits)

lemma populated_runOps:
  "populated (data s) \<Longrightarrow> populated (data (fst (runOps env ops s t)))"
proof (induction ops arbitrary: s t)
  case Nil
  then show ?case by simp
next
  case (Cons op ops)
  show ?case
  proof (cases op)
    case EnsureSandbox
    obtain r s1 t1 where e: "ensureSandbox env s t = (r, s1, t1)"
      by (cases "ensureSandbox env s t") auto
    from populated_ensureSandbox [OF Cons.prems e] Cons.IH e EnsureSandbox
    show ?thesis by simp
  next
    case ReleaseSandbox
    obtain r s1 t1 where e: "releaseSandbox env s t = (r, s1, t1)"
      by (cases "releaseSandbox env s t") auto
    from populated_releaseSandbox [OF Cons.prems e] Cons.IH e ReleaseSandbox
    show ?thesis by simp
  qed
qed

text \<open>
  C5, as stated, fails for a session constructed from initial data that has an item
  and no token: the constructor stores the data as given, and \<^verbatim>\<open>releaseSandbox\<close> on it
  does nothing.
\<close>

theorem session_record_populated_counterexample:
  "\<not> populated (data (fst (runOps (poolAnswering 403) [ReleaseSandbox] (newAgentSession halfConfig) trace0)))
   \<and> item_D (data (newAgentSession halfConfig)) \<noteq> None
   \<and> borrowToken_D (data (newAgentSession halfConfig)) = None"
  by (simp add: populated_def newAgentSession_def halfConfig_def releaseSandbox_def hasSandbox_def)

text \<open>
  C5, amended. When the constructor is given no initial data, or initial data whose
  item and token are both null or both non-null, every state reached through
  \<^verbatim>\<open>ensureSandbox\<close> and \<^verbatim>\<open>releaseSandbox\<close> calls, whatever the pool and the callback
  answer, has item and token both null or both non-null, and \<^verbatim>\<open>hasSandbox()\<close> is true
  exactly when both are non-null.
\<close>

theorem session_record_populated:
  assumes "case initialData_C config of None \<Rightarrow> True | Some d \<Rightarrow> populated d"
    and "s = fst (runOps env ops (newAgentSession config) t)"
  shows "populated (data s) \<and>
         hasSandbox s = (item_D (data s) \<noteq> None \<and> borrowToken_D (data s) \<noteq> None)"
proof -
  have "populated (data (newAgentSession config))"
    using assms(1)
    by (auto simp: newAgentSession_def populated_def emptyData_def split: option.splits)
  then show ?thesis
    unfolding assms(2) by (simp add: populated_runOps hasSandbox_def)
qed

theorem session_record_populated_witness:
  "(case initialData_C freshConfig of None \<Rightarrow> True | Some d \<Rightarrow> populated d)
   \<and> data (fst (runOps poolLending [EnsureSandbox] (newAgentSession freshConfig) trace0))
       = \<lparr>sessionId_D = ''chat-1'', item_D = Some sb1, borrowToken_D = Some ''tok-1'',
          borrowedAt_D = Some 7\<rparr>
   \<and> hasSandbox (fst (runOps poolLending [EnsureSandbox] (newAgentSession freshConfig) trace0))
   \<and> populated (data (fst (runOps poolLending [EnsureSandbox]
                              (newAgentSession freshConfig) trace0)))
   \<and> data (fst (runOps poolLending [EnsureSandbox, ReleaseSandbox]
                   (newAgentSession freshConfig) trace0))
       = emptyData ''chat-1''
   \<and> \<not> hasSandbox (fst (runOps poolLending [EnsureSandbox, ReleaseSandbox]
                           (newAgentSession freshConfig) trace0))
   \<and> populated (data (fst (runOps poolLending [EnsureSandbox, ReleaseSandbox]
                              (newAgentSession freshConfig) trace0)))"
proof -
  have c: "case initialData_C freshConfig of None \<Rightarrow> True | Some d \<Rightarrow> populated d"
    by (simp add: freshConfig_def)
  have e1: "fst (runOps poolLending [EnsureSandbox] (newAgentSession freshConfig) trace0)
      = \<lparr>sessionId = ''chat-1'',
         data = \<lparr>sessionId_D = ''chat-1'', item_D = Some sb1, borrowToken_D = Some ''tok-1'',
                 borrowedAt_D = Some 7\<rparr>\<rparr>"
    by (simp add: ensureSandbox_def newAgentSession_def freshConfig_def emptyData_def
          poolLending_def sdk_borrow_def ok_def notify_def trace0_def Let_def)
  have e2: "fst (runOps poolLending [EnsureSandbox, ReleaseSandbox]
                   (newAgentSession freshConfig) trace0)
      = \<lparr>sessionId = ''chat-1'', data = emptyData ''chat-1''\<rparr>"
    by (simp add: ensureSandbox_def releaseSandbox_def hasSandbox_def newAgentSession_def
          freshConfig_def emptyData_def poolLending_def sdk_borrow_def sdk_returnAndWait_def
          sdk_return_def ok_def notify_def trace0_def Let_def)
  from session_record_populated [OF c refl, of poolLending "[EnsureSandbox]" trace0]
       session_record_populated [OF c refl, of poolLending "[EnsureSandbox, ReleaseSandbox]" trace0]
       c e1 e2
  show ?thesis by (simp add: emptyData_def)
qed

text \<open>The sessions the sandbox tools build are of that kind.\<close>

lemma getAgentSession_populated: "populated (data (getAgentSession chatId existingSession))"
  by (auto simp: getAgentSession_def newAgentSession_def populated_def emptyData_def
           split: option.splits)

text \<open>Whatever way \<^verbatim>\<open>borrow\<close> throws, the session and the callback are left alone.\<close>

lemma ensureSandbox_borrow_fails:
  "\<not> hasSandbox s \<Longrightarrow> sdk_borrow (borrowFetch env (borrowCalls t)) = Inl e \<Longrightarrow>
   ensureSandbox env s t = (Inl e, s, t\<lparr>borrowCalls := Suc (borrowCalls t)\<rparr>)"
  by (auto simp: ensureSandbox_def hasSandbox_def split: option.splits)

lemma sdk_borrow_503:
  "status r = 503 \<Longrightarrow> sdk_borrow (Inr r) = Inl (Error ''No sandboxes available in the pool'')"
  by (simp add: sdk_borrow_def ok_def)

text \<open>
  C6, as stated, fails in its general clause: an \<^verbatim>\<open>ensureSandbox\<close> call can fail and
  leave a lease behind. The pool lends a sandbox, the session stores it, and then the
  callback throws: the call fails and \<^verbatim>\<open>hasSandbox()\<close> is true.
\<close>

theorem ensureSandbox_pool_exhausted_counterexample:
  "\<not> hasSandbox (newAgentSession freshConfig)
   \<and> fst (ensureSandbox poolLendingCallbackThrows (newAgentSession freshConfig) trace0)
       = Inl (Error ''upsert failed'')
   \<and> hasSandbox (fst (snd (ensureSandbox poolLendingCallbackThrows
                               (newAgentSession freshConfig) trace0)))"
  by (simp add: ensureSandbox_def hasSandbox_def newAgentSession_def freshConfig_def
        emptyData_def poolLendingCallbackThrows_def poolLending_def sdk_borrow_def ok_def
        notify_def trace0_def Let_def)

text \<open>
  C6, amended. On a session without a sandbox, a 503 answer to \<^verbatim>\<open>borrow\<close> makes
  \<^verbatim>\<open>ensureSandbox\<close> throw the pool-exhausted error, and whenever \<^verbatim>\<open>borrow\<close> throws,
  \<^verbatim>\<open>ensureSandbox\<close> throws the same; in both cases the session is returned as it was
  and the callback is not invoked.
\<close>

theorem ensureSandbox_pool_exhausted:
  assumes "\<not> hasSandbox s"
  shows "(\<forall>r. borrowFetch env (borrowCalls t) = Inr r \<and> status r = 503 \<longrightarrow>
            ensureSandbox env s t =
              (Inl (Error ''No sandboxes available in the pool''), s,
               t\<lparr>borrowCalls := Suc (borrowCalls t)\<rparr>))
       \<and> (\<forall>e. sdk_borrow (borrowFetch env (borrowCalls t)) = Inl e \<longrightarrow>
            ensureSandbox env s t = (Inl e, s, t\<lparr>borrowCalls := Suc (borrowCalls t)\<rparr>))"
  using assms by (auto simp: ensureSandbox_borrow_fails sdk_borrow_503)

theorem ensureSandbox_pool_exhausted_witness:
  "\<not> hasSandbox (newAgentSession freshConfig) \<and>
   data (newAgentSession freshConfig) = emptyData ''chat-1'' \<and>
   borrowFetch (poolAnswering 503) (borrowCalls trace0)
     = Inr \<lparr>status = 503, statusText = [], json = Inl Thrown\<rparr> \<and>
   ensureSandbox (poolAnswering 503) (newAgentSession freshConfig) trace0 =
     (Inl (Error ''No sandboxes available in the pool''), newAgentSession freshConfig,
      trace0\<lparr>borrowCalls := 1\<rparr>)"
proof -
  have n: "\<not> hasSandbox (newAgentSession freshConfig)"
    by (simp add: hasSandbox_def newAgentSession_def freshConfig_def emptyData_def)
  have f: "borrowFetch (poolAnswering 503) (borrowCalls trace0)
     = Inr \<lparr>status = 503, statusText = [], json = Inl Thrown\<rparr>"
    by (simp add: poolAnswering_def)
  from ensureSandbox_pool_exhausted [OF n, of "poolAnswering 503" trace0] n f
  show ?thesis
    by (simp add: newAgentSession_def freshConfig_def trace0_def)
qed

text \<open>
  A throw of the callback is another matter: the borrow has succeeded by then and the
  lease is in the session, although the call fails.
\<close>

lemma ensureSandbox_callback_throws:
  assumes "\<not> hasSandbox s" and "sdk_borrow (borrowFetch env (borrowCalls t)) = Inr out"
    and "onSessionDataChange env = Some cb" and "cb (length (notified t)) = Some e"
  shows "\<exists>s1 t1. ensureSandbox env s t = (Inl e, s1, t1) \<and> hasSandbox s1"
  using assms
  by (auto simp: ensureSandbox_def hasSandbox_def notify_def Let_def split: option.splits)

section \<open>Properties of the Command Runners\<close>

lemma finalRecord_snoc: "finalRecord r (us @ [u]) = applyUpdate u (finalRecord r us)"
  by (simp add: finalRecord_def)

lemma applyUpdate_errorUpdate:
  "done_S (applyUpdate (errorUpdate m) r) \<and> error (applyUpdate (errorUpdate m) r) = Some m"
  by (simp add: applyUpdate_def errorUpdate_def noUpdate_def)

lemma updateShellStream_ok:
  "dbFail (attempts d) = None \<Longrightarrow>
   updateShellStream dbFail u d = (Inr (), d\<lparr>attempts := Suc (attempts d), writes := writes d @ [u]\<rparr>)"
  by (simp add: updateShellStream_def)

lemma updateShellStream_Inr:
  "updateShellStream dbFail u d = (Inr x, d1) \<Longrightarrow> writes d1 = writes d @ [u]"
  by (auto simp: updateShellStream_def split: option.splits)

lemma updateShellStream_Inl:
  "updateShellStream dbFail u d = (Inl e, d1) \<Longrightarrow> writes d1 = writes d"
  by (auto simp: updateShellStream_def split: option.splits)

lemma execShell_async_failure:
  assumes "execShell_try env timeoutMs d = (Inl e, d1)" and "dbFail_R env (attempts d1) = None"
  shows "writes (execShell_async env timeoutMs d) = writes d1 @ [errorUpdate (errorMessage e)]"
  using assms by (simp add: execShell_async_def updateShellStream_ok)



lemma finalRecord_append: "finalRecord r (us @ vs) = finalRecord (finalRecord r us) vs"
  by (simp add: finalRecord_def)

lemma finalRecord_outputOnly:
  "list_all outputOnly vs \<Longrightarrow>
   done_S (finalRecord r vs) = done_S r \<and> error (finalRecord r vs) = error r"
proof (induction vs arbitrary: r)
  case Nil
  then show ?case by (simp add: finalRecord_def)
next
  case (Cons v vs)
  then have "done_S (finalRecord (applyUpdate v r) vs) = done_S (applyUpdate v r)
     \<and> error (finalRecord (applyUpdate v r) vs) = error (applyUpdate v r)" by simp
  moreover have "done_S (applyUpdate v r) = done_S r \<and> error (applyUpdate v r) = error r"
    using Cons.prems by (simp add: outputOnly_def applyUpdate_def)
  ultimately show ?case by (simp add: finalRecord_def)
qed

lemma outputOnly_fieldUpdate: "outputOnly (fieldUpdate ty buf)"
  by (cases ty) (simp_all add: outputOnly_def fieldUpdate_def stdoutUpdate_def stderrUpdate_def
        noUpdate_def)

text \<open>Whatever a survivor writes touches neither \<^verbatim>\<open>done\<close> nor \<^verbatim>\<open>error\<close>.\<close>

lemma lateLoop_writes:
  "lateLoop dbFail ty n evs buf d = (res, d') \<Longrightarrow>
   \<exists>us. writes d' = writes d @ us \<and> list_all outputOnly us"
proof (induction dbFail ty n evs buf d rule: lateLoop.induct)
  case (1 dbFail ty evs buf d)
  then show ?case by simp
next
  case (2 dbFail ty n buf d)
  then show ?case by simp
next
  case (3 dbFail ty n ty' r rest buf d)
  show ?case
  proof (cases "ty' \<noteq> ty")
    case True
    with "3.prems" "3.IH"(1) show ?thesis by simp
  next
    case same: False
    show ?thesis
    proof (cases r)
      case (Inl e)
      with "3.prems" same show ?thesis by simp
    next
      case (Inr chunk)
      obtain r1 d1 where u: "updateShellStream dbFail (fieldUpdate ty (buf @ chunk)) d = (r1, d1)"
        by (cases "updateShellStream dbFail (fieldUpdate ty (buf @ chunk)) d") auto
      show ?thesis
      proof (cases r1)
        case (Inl e)
        with "3.prems" same Inr u updateShellStream_Inl [of dbFail _ d e d1]
        show ?thesis by auto
      next
        case ok: (Inr x)
        with "3.prems" same Inr u
        have "lateLoop dbFail ty n rest (buf @ chunk) d1 = (res, d')" by simp
        from "3.IH"(2) [OF _ Inr _ _ this] same u ok
        obtain us where "writes d' = writes d1 @ us" "list_all outputOnly us" by auto
        moreover from u ok have "writes d1 = writes d @ [fieldUpdate ty (buf @ chunk)]"
          using updateShellStream_Inr by blast
        ultimately show ?thesis
          by (intro exI [of _ "fieldUpdate ty (buf @ chunk) # us"])
             (simp add: outputOnly_fieldUpdate)
      qed
    qed
  qed
qed

lemma lateReads_writes:
  "lateReads dbFail n sv d = (sv', d') \<Longrightarrow>
   \<exists>us. writes d' = writes d @ us \<and> list_all outputOnly us"
proof (cases sv)
  case None
  assume "lateReads dbFail n sv d = (sv', d')"
  with None show ?thesis by (simp add: lateReads_def)
next
  case (Some v)
  assume a: "lateReads dbFail n sv d = (sv', d')"
  obtain res d1 where l: "lateLoop dbFail (reader_V v) n (pending_V v) (buffer_V v) d = (res, d1)"
    by (cases "lateLoop dbFail (reader_V v) n (pending_V v) (buffer_V v) d") auto
  with a Some have "d' = d1" by (auto simp: lateReads_def split: option.splits)
  with lateLoop_writes [OF l] show ?thesis by simp
qed

lemma lateReadsAll_writes:
  "\<exists>us. writes (lateReadsAll dbFail sv d) = writes d @ us \<and> list_all outputOnly us"
proof -
  obtain sv' d' where
    "lateReads dbFail (case sv of None \<Rightarrow> 0 | Some v \<Rightarrow> length (pending_V v)) sv d = (sv', d')"
    by (cases "lateReads dbFail (case sv of None \<Rightarrow> 0 | Some v \<Rightarrow> length (pending_V v)) sv d") auto
  from lateReads_writes [OF this] this show ?thesis by (simp add: lateReadsAll_def)
qed

text \<open>
  When the container runner's function throws and the store accepts the write of the
  caller's \<^verbatim>\<open>.catch\<close>, that write is followed only by what a survivor writes.
\<close>

lemma execShell_modal_failure:
  assumes "execShellInSandboxStreaming env d = (Inl e, d1, sv)"
    and "dbFail_M env (attempts (snd (beforeDotCatch env d1 sv))) = None"
  shows "\<exists>us. writes (execShell_modal env d) =
           writes (snd (beforeDotCatch env d1 sv)) @ [errorUpdate (errorMessage e)] @ us
         \<and> list_all outputOnly us"
proof -
  obtain sv2 d2 where b: "beforeDotCatch env d1 sv = (sv2, d2)"
    by (cases "beforeDotCatch env d1 sv") auto
  let ?d3 = "snd (updateShellStream (dbFail_M env) (errorUpdate (errorMessage e)) d2)"
  from assms(2) b have "writes ?d3 = writes d2 @ [errorUpdate (errorMessage e)]"
    by (simp add: updateShellStream_ok)
  moreover from lateReadsAll_writes [of "dbFail_M env" sv2 ?d3]
  obtain us where "writes (lateReadsAll (dbFail_M env) sv2 ?d3) = writes ?d3 @ us"
    "list_all outputOnly us" by blast
  moreover have "execShell_modal env d = lateReadsAll (dbFail_M env) sv2 ?d3"
    using assms(1) b by (simp add: execShell_modal_def)
  ultimately show ?thesis using b by auto
qed

lemma finalRecord_error_then_output:
  "list_all outputOnly us \<Longrightarrow>
   done_S (finalRecord r (ws @ [errorUpdate m] @ us)) \<and>
   error (finalRecord r (ws @ [errorUpdate m] @ us)) = Some m"
  using finalRecord_outputOnly [of us "finalRecord r (ws @ [errorUpdate m])"]
  by (simp add: finalRecord_append [of r "ws @ [errorUpdate m]" us, simplified]
        finalRecord_snoc applyUpdate_errorUpdate)

text \<open>Either runner, on any path, leaves the record done when the store refuses nothing.\<close>

lemma finalRecord_done_last:
  "done_U u = Some True \<Longrightarrow> done_S (finalRecord r (us @ [u]))"
  by (simp add: finalRecord_snoc applyUpdate_def)

lemma pollLoop_exit:
  "pollLoop env T cid i el ofs lastStdout d = (Inr el', d') \<Longrightarrow>
   T \<le> el' \<or> (\<exists>us r. writes d' = us @ [completedUpdate r])"
proof (induction "T - el" arbitrary: i el ofs lastStdout d rule: less_induct)
  case less
  note run = less.prems
  show ?case
  proof (cases "el < T")
    case False
    with run show ?thesis by (subst (asm) pollLoop.simps) simp
  next
    case True
    show ?thesis
    proof (cases "logs_R env i cid ofs")
      case (Inl e)
      with run True show ?thesis by (subst (asm) pollLoop.simps) simp
    next
      case (Inr r)
      obtain res1 d1 where w1:
        "(if logs r \<noteq> lastStdout
          then updateShellStream (dbFail_R env) (stdoutUpdate (logs r)) d
          else (Inr (), d)) = (res1, d1)"
        by (cases "if logs r \<noteq> lastStdout
          then updateShellStream (dbFail_R env) (stdoutUpdate (logs r)) d
          else (Inr (), d)") auto
      show ?thesis
      proof (cases res1)
        case (Inl e)
        with run True Inr w1 show ?thesis by (subst (asm) pollLoop.simps) simp
      next
        case ok: (Inr u1)
        show ?thesis
        proof (cases "done_L r")
          case True
          obtain res2 d2 where w2:
            "updateShellStream (dbFail_R env) (completedUpdate r) d1 = (res2, d2)"
            by (cases "updateShellStream (dbFail_R env) (completedUpdate r) d1") auto
          with run \<open>el < T\<close> Inr w1 ok True have "d' = d2 \<and> res2 = Inr ()"
            by (subst (asm) pollLoop.simps) (auto split: sum.splits)
          with updateShellStream_Inr [of "dbFail_R env" "completedUpdate r" d1 "()" d2] w2
          show ?thesis by auto
        next
          case False
          let ?el = "el + elapsed_R env i + 500"
          have lt: "T - ?el < T - el" using \<open>el < T\<close> by simp
          from run \<open>el < T\<close> Inr w1 ok False
          have "pollLoop env T cid (Suc i) ?el (offset r)
                  (if logs r \<noteq> lastStdout then logs r else lastStdout) d1 = (Inr el', d')"
            by (subst (asm) pollLoop.simps) simp
          from less.hyps [OF lt this] show ?thesis .
        qed
      qed
    qed
  qed
qed

lemma execShell_async_terminal:
  assumes db: "\<forall>k. dbFail_R env k = None"
  shows "done_S (finalRecord r0 (writes (execShell_async env T d)))"
proof -
  obtain res d1 where t: "execShell_try env T d = (res, d1)"
    by (cases "execShell_try env T d") auto
  show ?thesis
  proof (cases res)
    case (Inl e)
    with t db have "writes (execShell_async env T d) = writes d1 @ [errorUpdate (errorMessage e)]"
      by (simp add: execShell_async_failure)
    then show ?thesis by (simp add: finalRecord_done_last errorUpdate_def noUpdate_def)
  next
    case (Inr u)
    with t have a: "execShell_async env T d = d1" by (simp add: execShell_async_def)
    from t Inr obtain x :: ExecResponse and el ld where
      l: "pollLoop env T (commandId x) 0 0 (- 1) [] d = (Inr el, ld)"
      and c: "(T \<le> el \<and> updateShellStream (dbFail_R env) (errorUpdate ''Command timed out'') ld = (Inr u, d1))
              \<or> (\<not> T \<le> el \<and> d1 = ld)"
      by (auto simp: execShell_try_def split: option.splits sum.splits prod.splits if_splits)
    from c show ?thesis
    proof
      assume "T \<le> el \<and> updateShellStream (dbFail_R env) (errorUpdate ''Command timed out'') ld = (Inr u, d1)"
      then have "writes d1 = writes ld @ [errorUpdate ''Command timed out'']"
        using updateShellStream_Inr by blast
      then show ?thesis unfolding a by (simp add: finalRecord_done_last errorUpdate_def noUpdate_def)
    next
      assume n: "\<not> T \<le> el \<and> d1 = ld"
      with pollLoop_exit [OF l] obtain us r where "writes d1 = us @ [completedUpdate r]" by auto
      then show ?thesis unfolding a by (simp add: finalRecord_done_last completedUpdate_def noUpdate_def)
    qed
  qed
qed


lemma readStreams_Inr:
  "readStreams dbFail evs fo fe d = (Inr x, fo', fe', d', sv) \<Longrightarrow> sv = None"
proof (induction dbFail evs fo fe d rule: readStreams.induct)
  case (4 dbFail chunk rest fullStdout fullStderr d)
  then show ?case by (auto split: prod.splits sum.splits)
next
  case (5 dbFail chunk rest fullStdout fullStderr d)
  then show ?case by (auto split: prod.splits sum.splits)
qed simp_all

lemma streaming_try_Inr:
  "streaming_try env d = (Inr v, d1, sv) \<Longrightarrow>
   sv = None \<and> (\<exists>us fo fe code. writes d1 = us @ [finalUpdate fo fe code])"
  by (auto simp: streaming_try_def split: option.splits sum.splits prod.splits if_splits
           dest!: updateShellStream_Inr)

lemma execShellInSandboxStreaming_Inr:
  "execShellInSandboxStreaming env d = (Inr v, d1, sv) \<Longrightarrow> streaming_try env d = (Inr v, d1, sv)"
  by (auto simp: execShellInSandboxStreaming_def streaming_catch_def
           split: option.splits sum.splits prod.splits)

lemma execShell_modal_terminal:
  assumes db: "\<forall>k. dbFail_M env k = None"
  shows "done_S (finalRecord r0 (writes (execShell_modal env d)))"
proof -
  obtain res d1 sv where f: "execShellInSandboxStreaming env d = (res, d1, sv)"
    by (cases "execShellInSandboxStreaming env d") auto
  show ?thesis
  proof (cases res)
    case (Inl e)
    with f db execShell_modal_failure [of env d e d1 sv]
    obtain us where "writes (execShell_modal env d) =
           writes (snd (beforeDotCatch env d1 sv)) @ [errorUpdate (errorMessage e)] @ us"
      "list_all outputOnly us" by auto
    then show ?thesis using finalRecord_error_then_output by metis
  next
    case (Inr v)
    with f have a: "execShell_modal env d = d1" by (simp add: execShell_modal_def)
    from f Inr have "streaming_try env d = (Inr v, d1, sv)"
      by (simp add: execShellInSandboxStreaming_Inr)
    from streaming_try_Inr [OF this] show ?thesis
      unfolding a by (auto simp: finalRecord_done_last finalUpdate_def noUpdate_def)
  qed
qed

text \<open>
  C3, as stated, fails when the store refuses the handler's write: the handler has
  nothing to fall back on, and the record stays open. The backend cannot be reached
  and the store is down.
\<close>

theorem runner_failure_terminal_counterexample:
  "execShell_try refusingBackend 1000 db0 = (Inl (Error ''fetch failed''), db0)
   \<and> writes (execShell_async refusingBackend 1000 db0) = []
   \<and> \<not> done_S (finalRecord record0 (writes (execShell_async refusingBackend 1000 db0)))
   \<and> error (finalRecord record0 (writes (execShell_async refusingBackend 1000 db0))) = None"
  by (simp add: execShell_async_def execShell_try_def refusingBackend_def
        unreachableBackend_def silentBackend_def db0_def updateShellStream_def finalRecord_def
        record0_def createShellStream_def)

text \<open>
  C3, amended. When the body of the pooled runner throws, or the container runner's
  function throws, and the store accepts the handler's write, the record ends with
  \<^verbatim>\<open>done = true\<close> and with the message of what was thrown as its \<^verbatim>\<open>error\<close>. And
  whatever happens in a run, when the store refuses no write the record ends with
  \<^verbatim>\<open>done = true\<close>: no path leaves it open.
\<close>

theorem runner_failure_terminal:
  "(execShell_try env timeoutMs d = (Inl e, d1) \<and> dbFail_R env (attempts d1) = None \<longrightarrow>
      done_S (finalRecord r0 (writes (execShell_async env timeoutMs d))) \<and>
      error (finalRecord r0 (writes (execShell_async env timeoutMs d))) = Some (errorMessage e))
   \<and>
   (execShellInSandboxStreaming menv d = (Inl e', d1', sv)
    \<and> dbFail_M menv (attempts (snd (beforeDotCatch menv d1' sv))) = None \<longrightarrow>
      done_S (finalRecord r0 (writes (execShell_modal menv d))) \<and>
      error (finalRecord r0 (writes (execShell_modal menv d))) = Some (errorMessage e'))
   \<and>
   ((\<forall>k. dbFail_R env k = None) \<longrightarrow>
      done_S (finalRecord r0 (writes (execShell_async env timeoutMs d))))
   \<and>
   ((\<forall>k. dbFail_M menv k = None) \<longrightarrow>
      done_S (finalRecord r0 (writes (execShell_modal menv d))))"
proof (intro conjI impI)
  assume "execShell_try env timeoutMs d = (Inl e, d1) \<and> dbFail_R env (attempts d1) = None"
  then show "done_S (finalRecord r0 (writes (execShell_async env timeoutMs d)))"
    and "error (finalRecord r0 (writes (execShell_async env timeoutMs d))) = Some (errorMessage e)"
    by (simp_all add: execShell_async_failure finalRecord_snoc applyUpdate_errorUpdate)
next
  assume a: "execShellInSandboxStreaming menv d = (Inl e', d1', sv)
    \<and> dbFail_M menv (attempts (snd (beforeDotCatch menv d1' sv))) = None"
  with execShell_modal_failure [of menv d e' d1' sv]
  obtain us where "writes (execShell_modal menv d) =
           writes (snd (beforeDotCatch menv d1' sv)) @ [errorUpdate (errorMessage e')] @ us"
    "list_all outputOnly us" by auto
  then show "done_S (finalRecord r0 (writes (execShell_modal menv d)))"
    and "error (finalRecord r0 (writes (execShell_modal menv d))) = Some (errorMessage e')"
    using finalRecord_error_then_output by metis+
next
  assume "\<forall>k. dbFail_R env k = None"
  then show "done_S (finalRecord r0 (writes (execShell_async env timeoutMs d)))"
    by (rule execShell_async_terminal)
next
  assume "\<forall>k. dbFail_M menv k = None"
  then show "done_S (finalRecord r0 (writes (execShell_modal menv d)))"
    by (rule execShell_modal_terminal)
qed

theorem runner_failure_terminal_witness:
  "execShell_try unreachableBackend 1000 db0 = (Inl (Error ''fetch failed''), db0)
   \<and> (\<forall>k. dbFail_R unreachableBackend k = None)
   \<and> done_S (finalRecord record0 (writes (execShell_async unreachableBackend 1000 db0)))
   \<and> error (finalRecord record0 (writes (execShell_async unreachableBackend 1000 db0)))
       = Some ''fetch failed''
   \<and> execShellInSandboxStreaming containerReaderThrows db0
       = (Inl (Error ''read failed''),
          \<lparr>attempts = 2, writes = [stdoutUpdate ''a'', errorUpdate ''read failed'']\<rparr>,
          Some \<lparr>reader_V = Stdout, pending_V = [(Stdout, Inr ''bc'')], buffer_V = ''a''\<rparr>)
   \<and> (\<forall>k. dbFail_M containerReaderThrows k = None)
   \<and> writes (execShell_modal containerReaderThrows db0)
       = [stdoutUpdate ''a'', errorUpdate ''read failed'', errorUpdate ''read failed'',
          stdoutUpdate ''abc'']
   \<and> done_S (finalRecord record0 (writes (execShell_modal containerReaderThrows db0)))
   \<and> error (finalRecord record0 (writes (execShell_modal containerReaderThrows db0)))
       = Some ''read failed''"
proof -
  have p: "execShell_try unreachableBackend 1000 db0 = (Inl (Error ''fetch failed''), db0)"
    "\<forall>k. dbFail_R unreachableBackend k = None"
    by (simp_all add: execShell_try_def unreachableBackend_def silentBackend_def)
  have m: "execShellInSandboxStreaming containerReaderThrows db0
       = (Inl (Error ''read failed''),
          \<lparr>attempts = 2, writes = [stdoutUpdate ''a'', errorUpdate ''read failed'']\<rparr>,
          Some \<lparr>reader_V = Stdout, pending_V = [(Stdout, Inr ''bc'')], buffer_V = ''a''\<rparr>)"
    "\<forall>k. dbFail_M containerReaderThrows k = None"
    by (simp_all add: execShellInSandboxStreaming_def streaming_try_def streaming_catch_def
          lateReads_def containerReaderThrows_def containerOk_def updateShellStream_def db0_def
          errorMessage_def)
  have w: "writes (execShell_modal containerReaderThrows db0)
       = [stdoutUpdate ''a'', errorUpdate ''read failed'', errorUpdate ''read failed'',
          stdoutUpdate ''abc'']"
    unfolding execShell_modal_def m(1)
    by (simp add: beforeDotCatch_def lateReads_def lateReadsAll_def containerReaderThrows_def
          containerOk_def updateShellStream_def errorMessage_def fieldUpdate_def)
  from runner_failure_terminal [of unreachableBackend 1000 db0 "Error ''fetch failed''" db0 record0
          containerReaderThrows "Error ''read failed''"
          "\<lparr>attempts = 2, writes = [stdoutUpdate ''a'', errorUpdate ''read failed'']\<rparr>"
          "Some \<lparr>reader_V = Stdout, pending_V = [(Stdout, Inr ''bc'')], buffer_V = ''a''\<rparr>"]
    p m w
  show ?thesis by (simp add: db0_def errorMessage_def)
qed

text \<open>
  A backend that does not report completion at any call the time-out leaves room for
  (the i-th call is made no earlier than 500 ms times i) keeps the loop going until
  the clock has reached the time-out; up to then only stdout is written.
\<close>

lemma pollLoop_never_done:
  assumes nd: "\<forall>i c ofs. 500 * i < T \<longrightarrow> (\<exists>r. logs_R env i c ofs = Inr r \<and> \<not> done_L r)"
    and db: "\<forall>k. dbFail_R env k = None"
  shows "500 * i \<le> el \<Longrightarrow>
         \<exists>el' us. pollLoop env T cid i el ofs lastStdout d =
            (Inr el', d\<lparr>attempts := attempts d + length us, writes := writes d @ us\<rparr>)
          \<and> T \<le> el' \<and> list_all (\<lambda>u. done_U u = None) us"
proof (induction "T - el" arbitrary: i el ofs lastStdout d rule: less_induct)
  case less
  show ?case
  proof (cases "el < T")
    case False
    then have "pollLoop env T cid i el ofs lastStdout d = (Inr el, d)"
      by (subst pollLoop.simps) simp
    then show ?thesis using False
      by (intro exI [of _ el] exI [of _ "[]"]) simp
  next
    case True
    with less.prems have "500 * i < T" by simp
    with nd obtain r where r: "logs_R env i cid ofs = Inr r" "\<not> done_L r" by blast
    let ?el = "el + elapsed_R env i + 500"
    have lt: "T - ?el < T - el" using True by simp
    have nxt: "500 * Suc i \<le> ?el" using less.prems by simp
    show ?thesis
    proof (cases "logs r \<noteq> lastStdout")
      case False
      from less.hyps [OF lt nxt, of "offset r" lastStdout d]
      obtain el' us where
        "pollLoop env T cid (Suc i) ?el (offset r) lastStdout d =
           (Inr el', d\<lparr>attempts := attempts d + length us, writes := writes d @ us\<rparr>)"
        "T \<le> el'" "list_all (\<lambda>u. done_U u = None) us" by blast
      moreover have "pollLoop env T cid i el ofs lastStdout d =
          pollLoop env T cid (Suc i) ?el (offset r) lastStdout d"
        using True r False by (subst pollLoop.simps) simp
      ultimately show ?thesis by auto
    next
      case neq: True
      let ?d1 = "d\<lparr>attempts := Suc (attempts d), writes := writes d @ [stdoutUpdate (logs r)]\<rparr>"
      from less.hyps [OF lt nxt, of "offset r" "logs r" ?d1]
      obtain el' us where
        *: "pollLoop env T cid (Suc i) ?el (offset r) (logs r) ?d1 =
           (Inr el', ?d1\<lparr>attempts := attempts ?d1 + length us, writes := writes ?d1 @ us\<rparr>)"
        "T \<le> el'" "list_all (\<lambda>u. done_U u = None) us" by blast
      have "pollLoop env T cid i el ofs lastStdout d =
          pollLoop env T cid (Suc i) ?el (offset r) (logs r) ?d1"
        using True r neq db by (subst pollLoop.simps) (simp add: updateShellStream_def)
      with * show ?thesis
        by (intro exI [of _ el'] exI [of _ "stdoutUpdate (logs r) # us"])
           (simp add: stdoutUpdate_def noUpdate_def)
    qed
  qed
qed

text \<open>
  C7, as stated, fails on the container runner, which has no time-out write of its
  own: when the command outlives the sandbox, the record gets whatever the service
  throws, written by both handlers, and never \<^verbatim>\<open>Command timed out\<close>.
\<close>

theorem execShell_timeout_once_counterexample:
  "writes (execShell_modal containerTimesOut db0)
     = [stdoutUpdate ''a'', stderrUpdate ''x'', stdoutUpdate ''abc'',
        errorUpdate ''Sandbox timeout'', errorUpdate ''Sandbox timeout'']
   \<and> error (finalRecord record0 (writes (execShell_modal containerTimesOut db0)))
       = Some ''Sandbox timeout''
   \<and> count_list (writes (execShell_modal containerTimesOut db0))
        (errorUpdate ''Command timed out'') = 0"
  by (simp add: execShell_modal_def execShellInSandboxStreaming_def streaming_try_def
        streaming_catch_def beforeDotCatch_def lateReads_def lateReadsAll_def
        containerTimesOut_def containerOk_def updateShellStream_def db0_def errorMessage_def
        finalRecord_def applyUpdate_def errorUpdate_def stdoutUpdate_def stderrUpdate_def
        noUpdate_def)

text \<open>
  C7, amended. In the pooled runner, when starting the session and the command
  succeed, every \<^verbatim>\<open>logs\<close> call the time-out leaves room for answers without reporting
  completion and the store refuses nothing, the writes end with the time-out write, no
  earlier write sets \<^verbatim>\<open>done\<close>, the time-out write occurs once, and the record ends with
  \<^verbatim>\<open>done = true\<close> and \<^verbatim>\<open>error = "Command timed out"\<close>.
\<close>

theorem execShell_timeout_once:
  assumes "getAgentSession_R env = None" and "exec_R env = Inr execResult"
    and "\<forall>i c ofs. 500 * i < timeoutMs \<longrightarrow> (\<exists>r. logs_R env i c ofs = Inr r \<and> \<not> done_L r)"
    and "\<forall>k. dbFail_R env k = None"
  shows "\<exists>us. writes (execShell_async env timeoutMs db0) = us @ [errorUpdate ''Command timed out'']
           \<and> list_all (\<lambda>u. done_U u = None) us
           \<and> count_list (writes (execShell_async env timeoutMs db0))
                (errorUpdate ''Command timed out'') = 1
           \<and> done_S (finalRecord r0 (writes (execShell_async env timeoutMs db0)))
           \<and> error (finalRecord r0 (writes (execShell_async env timeoutMs db0)))
               = Some ''Command timed out''"
proof -
  from pollLoop_never_done [OF assms(3,4), of 0 0 "commandId execResult" "- 1" "[]" db0]
  obtain el' us where
    loop: "pollLoop env timeoutMs (commandId execResult) 0 0 (- 1) [] db0 =
            (Inr el', db0\<lparr>attempts := attempts db0 + length us, writes := writes db0 @ us\<rparr>)"
    and el': "timeoutMs \<le> el'" and us: "list_all (\<lambda>u. done_U u = None) us" by auto
  have w: "writes (execShell_async env timeoutMs db0) = us @ [errorUpdate ''Command timed out'']"
    using assms(1,2,4) loop el'
    by (simp add: execShell_async_def execShell_try_def updateShellStream_def db0_def)
  have "count_list us (errorUpdate ''Command timed out'') = 0"
    using us by (induction us) (auto simp: errorUpdate_def noUpdate_def)
  with w us show ?thesis
    by (simp add: finalRecord_snoc applyUpdate_errorUpdate)
qed

theorem execShell_timeout_once_witness:
  "getAgentSession_R silentBackend = None
   \<and> (\<forall>i c ofs. \<exists>r. logs_R silentBackend i c ofs = Inr r \<and> \<not> done_L r)
   \<and> (\<forall>k. dbFail_R silentBackend k = None)
   \<and> writes (execShell_async silentBackend 1000 db0)
       = [stdoutUpdate ''hi'', errorUpdate ''Command timed out'']
   \<and> count_list (writes (execShell_async silentBackend 1000 db0))
        (errorUpdate ''Command timed out'') = 1
   \<and> done_S (finalRecord record0 (writes (execShell_async silentBackend 1000 db0)))
   \<and> error (finalRecord record0 (writes (execShell_async silentBackend 1000 db0)))
       = Some ''Command timed out''"
proof -
  have w: "writes (execShell_async silentBackend 1000 db0)
       = [stdoutUpdate ''hi'', errorUpdate ''Command timed out'']"
    by (simp add: execShell_async_def execShell_try_def silentBackend_def pollLoop.simps
        updateShellStream_def db0_def)
  have h: "getAgentSession_R silentBackend = None"
    "exec_R silentBackend = Inr \<lparr>commandId = ''cmd-1'', status_E = started, exitCode_E = None,
                    error_E = None\<rparr>"
    "\<forall>i c ofs. 500 * i < (1000::nat) \<longrightarrow>
       (\<exists>r. logs_R silentBackend i c ofs = Inr r \<and> \<not> done_L r)"
    "\<forall>k. dbFail_R silentBackend k = None"
    by (simp_all add: silentBackend_def)
  from execShell_timeout_once [OF h, of record0] w h show ?thesis
    by (auto simp: silentBackend_def)
qed

subsection \<open>Lengths of the output fields\<close>





























subsection \<open>Writes after the record is done\<close>















text \<open>The container runner writes a failure twice even when no reader is left.\<close>

lemma execShell_modal_writes_twice:
  "writes (execShell_modal containerExecFails db0) =
     [errorUpdate ''exec failed'', errorUpdate ''exec failed'']"
  by (simp add: execShell_modal_def execShellInSandboxStreaming_def streaming_try_def
        streaming_catch_def beforeDotCatch_def lateReads_def lateReadsAll_def
        containerExecFails_def containerOk_def updateShellStream_def db0_def errorMessage_def)

section \<open>Properties of result polling\<close>

text \<open>The record left by the command that completed while the deadline passed.\<close>

lemma lateRecord_eq:
  "lateRecord = record0\<lparr>stdout := ''hi'', exitCode := Some 0,
                        error := Some ''Command timed out'', done_S := True\<rparr>"
  by (simp add: lateRecord_def execShell_async_def execShell_try_def slowBackend_def
        silentBackend_def pollLoop.simps updateShellStream_def db0_def finalRecord_def
        applyUpdate_def stdoutUpdate_def completedUpdate_def errorUpdate_def noUpdate_def
        record0_def createShellStream_def)

text \<open>
  C10. When the tool finds the record done at its first read, it returns the finished
  object, whose \<^verbatim>\<open>success\<close> is true exactly when the exit code is 0, whatever the
  \<^verbatim>\<open>error\<close> field holds.
\<close>

theorem getShellResult_success:
  assumes "0 < timeoutMs"
    and "getShellStream_G env 0 streamId = Inr (Some stream)" and "done_S stream"
  shows "getShellResult env streamId timeoutMs 0 0 = Inr (finished streamId stream)
         \<and> success (finished streamId stream) = (exitCode stream = Some 0)
         \<and> finished streamId stream =
             Finished (exitCode stream = Some 0) streamId (exitCode stream) (stdout stream)
               (orNull (Some (stderr stream))) (orNull (error stream))"
  using assms by (subst getShellResult.simps) (simp add: finished_def)

theorem getShellResult_success_witness:
  "(0::nat) < 1000 \<and> done_S lateRecord \<and> error lateRecord = Some ''Command timed out''
   \<and> getShellResult (storeHolding lateRecord) ''stream-1'' 1000 0 0 =
       Inr (Finished True ''stream-1'' (Some 0) ''hi'' None (Some ''Command timed out''))"
  using getShellResult_success [of 1000 "storeHolding lateRecord" "''stream-1''" lateRecord]
  by (simp add: lateRecord_eq storeHolding_def orNull_def record0_def createShellStream_def)

text \<open>The same at whichever read the tool finds the record done.\<close>

lemma getShellResult_finished:
  "getShellResult env streamId timeoutMs i el = Inr (Finished b sid code out err msg) \<Longrightarrow>
   b = (code = Some 0)"
proof (induction "timeoutMs - el" arbitrary: i el rule: less_induct)
  case less
  note run = less.prems
  show ?case
  proof (cases "el < timeoutMs")
    case False
    with run show ?thesis
      by (subst (asm) getShellResult.simps) (auto split: sum.splits)
  next
    case True
    have lt: "timeoutMs - (el + elapsed_G env i + 500) < timeoutMs - el" using True by simp
    show ?thesis
    proof (cases "getShellStream_G env i streamId")
      case (Inl e)
      with run True show ?thesis by (subst (asm) getShellResult.simps) simp
    next
      case (Inr found)
      show ?thesis
      proof (cases found)
        case None
        with run True Inr show ?thesis by (subst (asm) getShellResult.simps) simp
      next
        case (Some stream)
        show ?thesis
        proof (cases "done_S stream")
          case True
          with run \<open>el < timeoutMs\<close> Inr Some show ?thesis
            by (subst (asm) getShellResult.simps) (auto simp: finished_def)
        next
          case False
          with run \<open>el < timeoutMs\<close> Inr Some
          have "getShellResult env streamId timeoutMs (Suc i) (el + elapsed_G env i + 500)
                  = Inr (Finished b sid code out err msg)"
            by (subst (asm) getShellResult.simps) simp
          from less.hyps [OF lt this] show ?thesis .
        qed
      qed
    qed
  qed
qed

section \<open>Properties of the Streaming Bridge\<close>

lemma start_done:
  "done_S r \<Longrightarrow> sent (start r) = [initialEvent r, Done] \<and> closed (start r) \<and> \<not> scheduled (start r)"
  by (simp add: start_def sendEvent_def close_def Let_def)

lemma runPolls_idle: "\<not> scheduled b \<Longrightarrow> runPolls b ts = b"
  by (cases ts) auto

text \<open>
  C8, as stated, fails in what it says the \<^verbatim>\<open>initial\<close> event carries: the event has
  eight fields of the record, so two done records that differ in their chat id give
  the same events.
\<close>

theorem subscribe_after_done_counterexample:
  "done_S lateRecord
   \<and> lateRecord\<lparr>chatId_S := ''chat-2''\<rparr> \<noteq> lateRecord
   \<and> sent (start (lateRecord\<lparr>chatId_S := ''chat-2''\<rparr>)) = sent (start lateRecord)"
  by (simp add: lateRecord_eq record0_def createShellStream_def start_def sendEvent_def
        close_def initialEvent_def Let_def)

text \<open>
  C8, amended. Subscribing to a record that is already done gives the \<^verbatim>\<open>initial\<close> event
  with the record's id, session id, command, stdout, stderr, exit code, error and
  done, and then the \<^verbatim>\<open>done\<close> event, nothing else; the channel is closed and no timer
  is left to send anything later.
\<close>

theorem subscribe_after_done:
  assumes "done_S initialStream" and "truthy streamId"
  shows "\<exists>b. GET streamId True (Inr (Some initialStream)) = Inr (EventStream b)
             \<and> sent b =
                 [Initial (id_S initialStream) (sessionId_S initialStream)
                    (command_S initialStream) (stdout initialStream) (stderr initialStream)
                    (exitCode initialStream) (error initialStream) True,
                  Done]
             \<and> closed b
             \<and> runPolls b ts = b"
  using assms start_done [of initialStream] runPolls_idle [of "start initialStream" ts]
  by (simp add: GET_def initialEvent_def)

theorem subscribe_after_done_witness:
  "done_S lateRecord \<and> truthy (Some ''stream-1'')
   \<and> GET (Some ''stream-1'') True (Inr (Some lateRecord)) = Inr (EventStream (start lateRecord))
   \<and> sent (start lateRecord) =
       [Initial ''stream-1'' ''chat-1'' ''echo hi'' ''hi'' [] (Some 0) (Some ''Command timed out'') True,
        Done]
   \<and> closed (start lateRecord)"
proof -
  have d: "done_S lateRecord" and t: "truthy (Some ''stream-1'')"
    by (simp_all add: lateRecord_eq truthy_def)
  from subscribe_after_done [OF d t, of "[]"] d t show ?thesis
    by (auto simp: GET_def lateRecord_eq record0_def createShellStream_def)
qed

lemma poll_tick:
  assumes "isClientConnected b" and "\<not> closed b" and "pollCount b < maxPolls"
  shows "sent (poll b (Inr (Some cur)) False) =
           sent b
           @ (if length (stdout cur) > lastStdoutLength b
              then [StdoutData (drop (lastStdoutLength b) (stdout cur))] else [])
           @ (if length (stderr cur) > lastStderrLength b
              then [StderrData (drop (lastStderrLength b) (stderr cur))] else [])
           @ (if done_S cur then [Complete (exitCode cur) (error cur), Done] else [])"
    and "lastStdoutLength (poll b (Inr (Some cur)) False) = max (lastStdoutLength b) (length (stdout cur))"
    and "lastStderrLength (poll b (Inr (Some cur)) False) = max (lastStderrLength b) (length (stderr cur))"
    and "isClientConnected (poll b (Inr (Some cur)) False)"
    and "pollCount (poll b (Inr (Some cur)) False) = Suc (pollCount b)"
    and "\<not> done_S cur \<Longrightarrow> \<not> closed (poll b (Inr (Some cur)) False) \<and> scheduled (poll b (Inr (Some cur)) False)"
  using assms by (auto simp: poll_def sendEvent_def close_def Let_def)

lemma receive_append:
  "Done \<notin> set evs \<Longrightarrow> receive st (evs @ evs') = receive (receive st evs) evs'"
proof (induction evs arbitrary: st)
  case Nil
  then show ?case by simp
next
  case (Cons e evs)
  then show ?case by (cases e) auto
qed

lemma prefix_drop: "prefix xs ys \<Longrightarrow> xs @ drop (length xs) ys = ys"
  by (auto simp: prefix_def)

lemma following_start: "\<not> done_S r \<Longrightarrow> following (start r) r"
  by (simp add: following_def start_def sendEvent_def Let_def initialEvent_def)

lemma following_poll:
  assumes f: "following b cur" and n: "pollCount b < maxPolls" and nd: "\<not> done_S x"
    and p: "prefix (stdout cur) (stdout x)" "prefix (stderr cur) (stderr x)"
  shows "following (poll b (Inr (Some x)) False) x"
proof -
  from f have c: "isClientConnected b" "\<not> closed b" and nodone: "Done \<notin> set (sent b)"
    and l: "lastStdoutLength b = length (stdout cur)" "lastStderrLength b = length (stderr cur)"
    and st: "stdout_T (receive initialState (sent b)) = stdout cur"
            "stderr_T (receive initialState (sent b)) = stderr cur"
    by (auto simp: following_def)
  note t = poll_tick [OF c n, of x]
  have le: "length (stdout cur) \<le> length (stdout x)" "length (stderr cur) \<le> length (stderr x)"
    using p by (auto simp: prefix_def)
  have o: "stdout cur @ drop (length (stdout cur)) (stdout x) = stdout x"
    and e: "stderr cur @ drop (length (stderr cur)) (stderr x) = stderr x"
    using p by (simp_all add: prefix_drop)
  have eqo: "\<not> length (stdout cur) < length (stdout x) \<Longrightarrow> stdout x = stdout cur"
    using o le(1) by (metis append_Nil2 drop_all leI)
  have eqe: "\<not> length (stderr cur) < length (stderr x) \<Longrightarrow> stderr x = stderr cur"
    using e le(2) by (metis append_Nil2 drop_all leI)
  show ?thesis
    unfolding following_def
    using t nd nodone l st le o e eqo eqe
    by (auto simp: receive_append max_def)
qed

lemma following_runPolls:
  "following b cur \<Longrightarrow> appendOnly cur rs \<Longrightarrow> list_all (\<lambda>r. \<not> done_S r) rs \<Longrightarrow>
   pollCount b + length rs \<le> maxPolls \<Longrightarrow>
   following (runPolls b (ticks rs)) (last (cur # rs))"
proof (induction rs arbitrary: b cur)
  case Nil
  then show ?case by (simp add: ticks_def)
next
  case (Cons x rs)
  from Cons.prems have n: "pollCount b < maxPolls" and nd: "\<not> done_S x"
    and p: "prefix (stdout cur) (stdout x)" "prefix (stderr cur) (stderr x)" by auto
  note f = following_poll [OF Cons.prems(1) n nd p]
  have pc: "pollCount (poll b (Inr (Some x)) False) = Suc (pollCount b)"
    using Cons.prems(1) n by (intro poll_tick) (auto simp: following_def)
  have "following (runPolls (poll b (Inr (Some x)) False) (ticks rs)) (last (x # rs))"
    using Cons.prems pc by (intro Cons.IH [OF f]) auto
  moreover have "scheduled b" using Cons.prems(1) by (simp add: following_def)
  ultimately show ?case by (simp add: ticks_def)
qed

lemma runPolls_append: "runPolls b (xs @ ys) = runPolls (runPolls b xs) ys"
proof (induction xs arbitrary: b)
  case Nil
  then show ?case by simp
next
  case (Cons t xs)
  obtain f c where t: "t = (f, c)" by (cases t) auto
  show ?case
  proof (cases "scheduled b")
    case True
    with Cons t show ?thesis by simp
  next
    case False
    with t show ?thesis by (simp add: runPolls_idle)
  qed
qed

lemma fold_max_snoc: "fold max (xs @ [y]) (a::nat) = max y (fold max xs a)"
  by simp

lemma seen_snoc:
  "seenStdout r0 (rs @ [x]) = max (seenStdout r0 rs) (length (stdout x))"
  "seenStderr r0 (rs @ [x]) = max (seenStderr r0 rs) (length (stderr x))"
  by (simp_all add: seenStdout_def seenStderr_def max.commute)

text \<open>
  The two counters of the bridge are high-water marks: after any reads they hold the
  greatest lengths seen so far.
\<close>

lemma tracking_start: "\<not> done_S r0 \<Longrightarrow> tracking (start r0) r0 []"
  by (simp add: tracking_def start_def sendEvent_def Let_def initialEvent_def seenStdout_def
        seenStderr_def)

lemma tracking_poll:
  assumes t: "tracking b r0 rs" and n: "length rs < maxPolls" and nd: "\<not> done_S x"
  shows "tracking (poll b (Inr (Some x)) False) r0 (rs @ [x])"
proof -
  from t n have c: "isClientConnected b" "\<not> closed b" "pollCount b < maxPolls"
    by (auto simp: tracking_def)
  note p = poll_tick [OF c, of x]
  from t have "Done \<notin> set (sent b)"
    "lastStdoutLength b = seenStdout r0 rs" "lastStderrLength b = seenStderr r0 rs"
    "pollCount b = length rs"
    by (auto simp: tracking_def)
  with p nd show ?thesis
    unfolding tracking_def by (simp add: seen_snoc)
qed

lemma tracking_runPolls:
  "\<not> done_S r0 \<Longrightarrow> list_all (\<lambda>r. \<not> done_S r) rs \<Longrightarrow> length rs \<le> maxPolls \<Longrightarrow>
   tracking (runPolls (start r0) (ticks rs)) r0 rs"
proof (induction rs rule: rev_induct)
  case Nil
  then show ?case by (simp add: ticks_def tracking_start)
next
  case (snoc x rs)
  then have t: "tracking (runPolls (start r0) (ticks rs)) r0 rs"
    and n: "length rs < maxPolls" and nd: "\<not> done_S x" by auto
  from t have "scheduled (runPolls (start r0) (ticks rs))" by (simp add: tracking_def)
  then have "runPolls (start r0) (ticks (rs @ [x]))
      = poll (runPolls (start r0) (ticks rs)) (Inr (Some x)) False"
    by (simp add: ticks_def runPolls_append)
  with tracking_poll [OF t n nd] show ?case by simp
qed

lemma appendOnly_snoc:
  "appendOnly r0 (rs @ [x]) =
     (appendOnly r0 rs \<and> prefix (stdout (last (r0 # rs))) (stdout x)
      \<and> prefix (stderr (last (r0 # rs))) (stderr x))"
  by (induction rs arbitrary: r0) auto

lemma seen_appendOnly:
  "appendOnly r0 rs \<Longrightarrow>
   seenStdout r0 rs = length (stdout (last (r0 # rs))) \<and>
   seenStderr r0 rs = length (stderr (last (r0 # rs)))"
proof (induction rs arbitrary: r0)
  case Nil
  then show ?case by (simp add: seenStdout_def seenStderr_def)
next
  case (Cons x xs)
  then have "length (stdout r0) \<le> length (stdout x)" "length (stderr r0) \<le> length (stderr x)"
    by (auto simp: prefix_def)
  then have "seenStdout r0 (x # xs) = seenStdout x xs" "seenStderr r0 (x # xs) = seenStderr x xs"
    by (simp_all add: seenStdout_def seenStderr_def max_def)
  with Cons show ?case by simp
qed

text \<open>What one more read adds to the events, after reads of records that are not done.\<close>

lemma runPolls_snoc:
  assumes "\<not> done_S r0" and "list_all (\<lambda>r. \<not> done_S r) rs" and "length rs < maxPolls"
  shows "sent (runPolls (start r0) (ticks (rs @ [x]))) =
           sent (runPolls (start r0) (ticks rs))
           @ (if seenStdout r0 rs < length (stdout x)
              then [StdoutData (drop (seenStdout r0 rs) (stdout x))] else [])
           @ (if seenStderr r0 rs < length (stderr x)
              then [StderrData (drop (seenStderr r0 rs) (stderr x))] else [])
           @ (if done_S x then [Complete (exitCode x) (error x), Done] else [])"
proof -
  let ?b = "runPolls (start r0) (ticks rs)"
  from assms have t: "tracking ?b r0 rs" by (intro tracking_runPolls) auto
  then have c: "isClientConnected ?b" "\<not> closed ?b" "pollCount ?b < maxPolls"
    and l: "lastStdoutLength ?b = seenStdout r0 rs" "lastStderrLength ?b = seenStderr r0 rs"
    and s: "scheduled ?b"
    using assms(3) by (auto simp: tracking_def)
  from s have "runPolls (start r0) (ticks (rs @ [x])) = poll ?b (Inr (Some x)) False"
    by (simp add: ticks_def runPolls_append)
  with poll_tick(1) [OF c, of x] l show ?thesis by simp
qed

lemma cursorHistory_eq:
  "cursorHistory =
     [record0, record0\<lparr>stdout := ''abc''\<rparr>, record0\<lparr>stdout := ''d''\<rparr>,
      record0\<lparr>stdout := ''d'', exitCode := Some 0, done_S := True\<rparr>]"
  by (simp add: cursorHistory_def execShell_async_def execShell_try_def cursorBackend_def
        pollLoop.simps updateShellStream_def db0_def applyUpdate_def stdoutUpdate_def
        completedUpdate_def noUpdate_def record0_def createShellStream_def)


text \<open>
  C9, as stated, fails in both parts when a write replaces the value instead of
  extending it. The subscriber joins while the record of the cursor backend reads
  \<^verbatim>\<open>abc\<close>; the next tick finds \<^verbatim>\<open>d\<close> on the record, which is not done: nothing is
  emitted, and the snapshot with all deltas is still \<^verbatim>\<open>abc\<close>. When the tick after
  that finds \<^verbatim>\<open>de\<close>, the field has grown since the value seen last, and still nothing
  is emitted: the bridge compares with the greatest length it has seen, which is 3.
\<close>

theorem poll_deltas_counterexample:
  "\<not> done_S (cursorHistory ! 1) \<and> \<not> done_S (cursorHistory ! 2)
   \<and> stdout (cursorHistory ! 1) = ''abc'' \<and> stdout (cursorHistory ! 2) = ''d''
   \<and> sent (runPolls (start (cursorHistory ! 1)) (ticks [cursorHistory ! 2]))
       = [initialEvent (cursorHistory ! 1)]
   \<and> stdout_T (receive initialState
                 (sent (runPolls (start (cursorHistory ! 1)) (ticks [cursorHistory ! 2]))))
       = ''abc''
   \<and> sent (runPolls (start (cursorHistory ! 1))
             (ticks [cursorHistory ! 2, record0\<lparr>stdout := ''de''\<rparr>]))
       = [initialEvent (cursorHistory ! 1)]"
  by (simp add: cursorHistory_eq record0_def createShellStream_def ticks_def start_def poll_def
        sendEvent_def close_def Let_def maxPolls_def initialEvent_def initialState_def)

text \<open>
  C9, amended. After the subscription to a record that is not done and any reads of
  records that are not done, with the subscriber connected and within the poll budget,
  the next tick that reads the record emits a \<^verbatim>\<open>stdout\<close> (\<^verbatim>\<open>stderr\<close>) event exactly when
  the field is longer than the greatest length seen so far, carrying the substring
  from that length on. When every value read extends the one read before, that
  length is the length seen last, and the subscriber that applies the initial
  snapshot and the deltas holds the record's current \<^verbatim>\<open>stdout\<close> and \<^verbatim>\<open>stderr\<close>.
\<close>

theorem poll_deltas:
  assumes "\<not> done_S r0" and "list_all (\<lambda>r. \<not> done_S r) rs" and "length rs < maxPolls"
  shows "sent (runPolls (start r0) (ticks (rs @ [x]))) =
           sent (runPolls (start r0) (ticks rs))
           @ (if seenStdout r0 rs < length (stdout x)
              then [StdoutData (drop (seenStdout r0 rs) (stdout x))] else [])
           @ (if seenStderr r0 rs < length (stderr x)
              then [StderrData (drop (seenStderr r0 rs) (stderr x))] else [])
           @ (if done_S x then [Complete (exitCode x) (error x), Done] else [])
       \<and> (appendOnly r0 (rs @ [x]) \<longrightarrow>
            seenStdout r0 rs = length (stdout (last (r0 # rs)))
          \<and> seenStderr r0 rs = length (stderr (last (r0 # rs)))
          \<and> stdout_T (receive initialState (sent (runPolls (start r0) (ticks (rs @ [x])))))
              = stdout x
          \<and> stderr_T (receive initialState (sent (runPolls (start r0) (ticks (rs @ [x])))))
              = stderr x)"
proof (intro conjI impI)
  show s: "sent (runPolls (start r0) (ticks (rs @ [x]))) =
           sent (runPolls (start r0) (ticks rs))
           @ (if seenStdout r0 rs < length (stdout x)
              then [StdoutData (drop (seenStdout r0 rs) (stdout x))] else [])
           @ (if seenStderr r0 rs < length (stderr x)
              then [StderrData (drop (seenStderr r0 rs) (stderr x))] else [])
           @ (if done_S x then [Complete (exitCode x) (error x), Done] else [])"
    using assms by (rule runPolls_snoc)
  assume "appendOnly r0 (rs @ [x])"
  then have a: "appendOnly r0 rs"
    and p: "prefix (stdout (last (r0 # rs))) (stdout x)" "prefix (stderr (last (r0 # rs))) (stderr x)"
    by (simp_all add: appendOnly_snoc)
  from seen_appendOnly [OF a]
  show so: "seenStdout r0 rs = length (stdout (last (r0 # rs)))"
    and se: "seenStderr r0 rs = length (stderr (last (r0 # rs)))" by simp_all
  let ?b = "runPolls (start r0) (ticks rs)"
  let ?cur = "last (r0 # rs)"
  have "pollCount (start r0) + length rs \<le> maxPolls"
    using assms(1,3) by (simp add: start_def sendEvent_def Let_def)
  with assms a following_start [of r0] have f: "following ?b ?cur"
    by (intro following_runPolls) auto
  then have nodone: "Done \<notin> set (sent ?b)"
    and st: "stdout_T (receive initialState (sent ?b)) = stdout ?cur"
            "stderr_T (receive initialState (sent ?b)) = stderr ?cur"
    by (auto simp: following_def)
  have o: "stdout ?cur @ drop (length (stdout ?cur)) (stdout x) = stdout x"
    and e: "stderr ?cur @ drop (length (stderr ?cur)) (stderr x) = stderr x"
    using p by (simp_all add: prefix_drop)
  have le: "length (stdout ?cur) \<le> length (stdout x)" "length (stderr ?cur) \<le> length (stderr x)"
    using p by (auto simp: prefix_def)
  have eqo: "\<not> length (stdout ?cur) < length (stdout x) \<Longrightarrow> stdout x = stdout ?cur"
    using o le(1) by (metis append_Nil2 drop_all leI)
  have eqe: "\<not> length (stderr ?cur) < length (stderr x) \<Longrightarrow> stderr x = stderr ?cur"
    using e le(2) by (metis append_Nil2 drop_all leI)
  show "stdout_T (receive initialState (sent (runPolls (start r0) (ticks (rs @ [x])))))
              = stdout x"
    unfolding s so se using nodone st o eqo by (auto simp: receive_append)
  show "stderr_T (receive initialState (sent (runPolls (start r0) (ticks (rs @ [x])))))
              = stderr x"
    unfolding s so se using nodone st e eqe by (auto simp: receive_append)
qed

theorem poll_deltas_witness:
  "\<not> done_S record0 \<and> list_all (\<lambda>r. \<not> done_S r) [hd growing] \<and> length [hd growing] < maxPolls
   \<and> appendOnly record0 ([hd growing] @ [growing ! 1])
   \<and> stdout (hd growing) = ''hi'' \<and> stdout (growing ! 1) = ''hi there''
   \<and> sent (runPolls (start record0) (ticks ([hd growing] @ [growing ! 1])))
       = sent (runPolls (start record0) (ticks [hd growing]))
         @ [StdoutData '' there'', StderrData ''warn'']
   \<and> stdout_T (receive initialState
                 (sent (runPolls (start record0) (ticks ([hd growing] @ [growing ! 1])))))
       = ''hi there''
   \<and> stderr_T (receive initialState
                 (sent (runPolls (start record0) (ticks ([hd growing] @ [growing ! 1])))))
       = ''warn''"
proof -
  have h: "\<not> done_S record0" "list_all (\<lambda>r. \<not> done_S r) [hd growing]"
    "length [hd growing] < maxPolls"
    by (simp_all add: growing_def record0_def createShellStream_def maxPolls_def)
  have a: "appendOnly record0 ([hd growing] @ [growing ! 1])"
    by (simp add: growing_def record0_def createShellStream_def)
  from poll_deltas [OF h, of "growing ! 1"] h a show ?thesis
    by (simp add: growing_def record0_def createShellStream_def seenStdout_def seenStderr_def
          ticks_def start_def poll_def sendEvent_def close_def Let_def maxPolls_def
          initialEvent_def initialState_def)
qed

end
